theory Spec2Isabelle
  imports Complex_Main "HOL-Library.Multiset" "HOL-Library.List_Lexorder"
begin

section \<open>The in-memory cache \<open>DataCache\<close> (hooks/useDataCache)\<close>

text \<open>
  The class keeps two JavaScript \<open>Map\<close>s: \<open>cache\<close> from keys to values and
  \<open>timestamps\<close> from keys to expiry instants. Instants are the integer milliseconds of
  \<open>Date.now()\<close>; every operation that reads the clock takes the reading as its first
  argument \<open>now\<close>.
\<close>

record ('k, 'v) DataCache =
  cache :: "'k \<rightharpoonup> 'v"
  timestamps :: "'k \<rightharpoonup> int"

definition new_DataCache :: "('k, 'v) DataCache" where
  "new_DataCache = \<lparr>cache = Map.empty, timestamps = Map.empty\<rparr>"

text \<open>\<open>set(key, data, ttl)\<close>: both maps receive the key; the expiry is \<open>Date.now() + ttl\<close>.\<close>

definition cache_set :: "int \<Rightarrow> 'k \<Rightarrow> 'v \<Rightarrow> int \<Rightarrow> ('k, 'v) DataCache \<Rightarrow> ('k, 'v) DataCache" where
  "cache_set now key data' ttl c =
     c\<lparr>cache := (cache c)(key \<mapsto> data'), timestamps := (timestamps c)(key \<mapsto> now + ttl)\<rparr>"

text \<open>The default argument \<open>ttl = 30000\<close>.\<close>

definition cache_set_default :: "int \<Rightarrow> 'k \<Rightarrow> 'v \<Rightarrow> ('k, 'v) DataCache \<Rightarrow> ('k, 'v) DataCache" where
  "cache_set_default now key data' c = cache_set now key data' 30000 c"

text \<open>
  \<open>get(key)\<close>: the test \<open>!expiry || Date.now() > expiry\<close> is true when the key has no
  expiry, when the stored expiry is the falsy number \<open>0\<close>, and when the clock is strictly
  after the expiry. Then both maps drop the key and the result is \<open>null\<close> (here \<open>None\<close>);
  otherwise the maps stay as they are and the result is \<open>cache.get(key)\<close>.
\<close>

definition cache_get :: "int \<Rightarrow> 'k \<Rightarrow> ('k, 'v) DataCache \<Rightarrow> 'v option \<times> ('k, 'v) DataCache" where
  "cache_get now key c =
     (case timestamps c key of
        None \<Rightarrow> (None, c\<lparr>cache := (cache c)(key := None), timestamps := (timestamps c)(key := None)\<rparr>)
      | Some expiry \<Rightarrow>
          if expiry = 0 \<or> now > expiry
          then (None, c\<lparr>cache := (cache c)(key := None), timestamps := (timestamps c)(key := None)\<rparr>)
          else (cache c key, c))"

definition invalidate :: "'k \<Rightarrow> ('k, 'v) DataCache \<Rightarrow> ('k, 'v) DataCache" where
  "invalidate key c = c\<lparr>cache := (cache c)(key := None), timestamps := (timestamps c)(key := None)\<rparr>"

definition clear :: "('k, 'v) DataCache \<Rightarrow> ('k, 'v) DataCache" where
  "clear c = c\<lparr>cache := Map.empty, timestamps := Map.empty\<rparr>"

text \<open>
  A call of one of the four methods, and a finite sequence of calls, each paired with the
  clock reading at the moment it runs.
\<close>

datatype ('k, 'v) cache_op = Set 'k 'v int | Get 'k | Invalidate 'k | Clear

fun apply_cache_op :: "int \<times> ('k, 'v) cache_op \<Rightarrow> ('k, 'v) DataCache \<Rightarrow> ('k, 'v) DataCache" where
  "apply_cache_op (now, Set key v ttl) c = cache_set now key v ttl c"
| "apply_cache_op (now, Get key) c = snd (cache_get now key c)"
| "apply_cache_op (now, Invalidate key) c = invalidate key c"
| "apply_cache_op (now, Clear) c = clear c"

definition run_cache_ops :: "(int \<times> ('k, 'v) cache_op) list \<Rightarrow> ('k, 'v) DataCache \<Rightarrow> ('k, 'v) DataCache" where
  "run_cache_ops ops c = fold apply_cache_op ops c"

section \<open>JavaScript values\<close>

text \<open>
  The values the hook stores, tests for truthiness and catches. Numbers are the integers
  and \<open>NaN\<close>; an array or any other object is a \<open>JArr\<close> or a \<open>JObj\<close> (the list of its
  own properties).
\<close>

datatype js_value =
  JUndefined | JNull | JBool bool | JNum int | JNaN | JStr string
  | JArr "js_value list" | JObj "(string \<times> js_value) list"

datatype js_error = TypeError

text \<open>\<open>ToBoolean\<close>: what \<open>if (v)\<close>, \<open>!v\<close> and \<open>v && \<dots>\<close> test.\<close>

fun truthy :: "js_value \<Rightarrow> bool" where
  "truthy JUndefined = False"
| "truthy JNull = False"
| "truthy (JBool b) = b"
| "truthy (JNum n) = (n \<noteq> 0)"
| "truthy JNaN = False"
| "truthy (JStr s) = (s \<noteq> [])"
| "truthy (JArr xs) = True"
| "truthy (JObj ps) = True"

text \<open>
  The property read \<open>err.message\<close>: it raises a \<open>TypeError\<close> on \<open>null\<close> and \<open>undefined\<close>,
  yields the property of an object that has one, and is \<open>undefined\<close> for every other
  value.
\<close>

fun get_message :: "js_value \<Rightarrow> js_error + js_value" where
  "get_message JUndefined = Inl TypeError"
| "get_message JNull = Inl TypeError"
| "get_message (JObj ps) =
     Inr (case map_of ps ''message'' of None \<Rightarrow> JUndefined | Some v \<Rightarrow> v)"
| "get_message v = Inr JUndefined"

text \<open>\<open>new Error(m)\<close> for a string \<open>m\<close>.\<close>

definition new_Error :: "string \<Rightarrow> js_value" where
  "new_Error m = JObj [(''message'', JStr m)]"

section \<open>The hook \<open>useCachedData\<close> (hooks/useDataCache)\<close>

text \<open>
  What one invocation of the wrapped \<open>fetchFunction\<close> does: its promise resolves to an
  object \<open>{success, data, error}\<close> (\<open>error\<close> absent or a string), or it is rejected with
  some value (the function throws, or the promise it returns rejects).
\<close>

datatype fetch_outcome = Resolved bool js_value "string option" | Threw js_value

text \<open>
  The hook's React state (\<open>data\<close>, \<open>loading\<close>, \<open>error\<close>) and its two refs. The field
  \<open>calls\<close> is not in the source: it counts the invocations of \<open>fetchFunction\<close> made so
  far, and the wrapped operation is given as the sequence of its outcomes, \<open>f n\<close> being
  what invocation number \<open>n\<close> does.
\<close>

record hook_state =
  data :: js_value
  loading :: bool
  error :: js_value
  lastFetchTime :: int
  cachedData :: js_value
  calls :: nat

definition init_hook_state :: hook_state where
  "init_hook_state =
     \<lparr>data = JNull, loading = True, error = JNull, lastFetchTime = 0, cachedData = JNull,
      calls = 0\<rparr>"

text \<open>\<open>result.error || 'Failed to fetch data'\<close>: an absent or empty message is falsy.\<close>

definition error_or_default :: "string option \<Rightarrow> string" where
  "error_or_default e =
     (case e of None \<Rightarrow> ''Failed to fetch data''
      | Some m \<Rightarrow> if m = [] then ''Failed to fetch data'' else m)"

text \<open>
  The freshness test of \<open>fetchData\<close>:
  \<open>!force && cachedData.current && (now - lastFetchTime.current) < cacheTime\<close>.
\<close>

definition cache_fresh :: "int \<Rightarrow> bool \<Rightarrow> int \<Rightarrow> hook_state \<Rightarrow> bool" where
  "cache_fresh cacheTime force now s \<longleftrightarrow>
     \<not> force \<and> truthy (cachedData s) \<and> now - lastFetchTime s < cacheTime"

text \<open>
  The body of the \<open>try\<close> block, entered after \<open>setLoading(true); setError(null)\<close>. It
  awaits \<open>fetchFunction()\<close>; \<open>Inl v\<close> is the value \<open>v\<close> thrown inside the block (by the
  awaited operation, or the \<open>Error\<close> thrown by the \<open>else\<close> branch), \<open>Inr d\<close> is the value of
  \<open>return result.data\<close>.
\<close>

definition fetchData_try ::
  "(nat \<Rightarrow> fetch_outcome) \<Rightarrow> int \<Rightarrow> hook_state \<Rightarrow> (js_value + js_value) \<times> hook_state" where
  "fetchData_try f now s =
     (let s1 = s\<lparr>calls := calls s + 1\<rparr> in
      case f (calls s) of
        Threw v \<Rightarrow> (Inl v, s1)
      | Resolved ok d e \<Rightarrow>
          if ok then (Inr d, s1\<lparr>cachedData := d, lastFetchTime := now, data := d\<rparr>)
          else (Inl (new_Error (error_or_default e)), s1))"

text \<open>
  \<open>fetchData(force)\<close> run at clock reading \<open>now\<close>, from its first statement to the
  settling of its promise, with no other call of the hook in between. The result is
  \<open>Inr v\<close> when the promise resolves to \<open>v\<close> and \<open>Inl e\<close> when it rejects with \<open>e\<close>,
  together with the state afterwards. The \<open>catch\<close> clause runs
  \<open>setError(err.message); return null\<close>; when the read of \<open>err.message\<close> raises, the
  exception leaves the \<open>catch\<close> clause and the promise rejects. \<open>finally\<close> runs
  \<open>setLoading(false)\<close> in every case.
\<close>

definition fetchData ::
  "(nat \<Rightarrow> fetch_outcome) \<Rightarrow> int \<Rightarrow> bool \<Rightarrow> int \<Rightarrow> hook_state
     \<Rightarrow> (js_error + js_value) \<times> hook_state" where
  "fetchData f cacheTime force now s =
     (if cache_fresh cacheTime force now s
      then (Inr (cachedData s), s\<lparr>data := cachedData s, loading := False\<rparr>)
      else
        (case fetchData_try f now (s\<lparr>loading := True, error := JNull\<rparr>) of
           (Inr d, s2) \<Rightarrow> (Inr d, s2\<lparr>loading := False\<rparr>)
         | (Inl err, s2) \<Rightarrow>
             (case get_message err of
                Inl e \<Rightarrow> (Inl e, s2\<lparr>loading := False\<rparr>)
              | Inr m \<Rightarrow> (Inr JNull, s2\<lparr>error := m, loading := False\<rparr>))))"

definition refresh ::
  "(nat \<Rightarrow> fetch_outcome) \<Rightarrow> int \<Rightarrow> int \<Rightarrow> hook_state \<Rightarrow> (js_error + js_value) \<times> hook_state" where
  "refresh f cacheTime now s = fetchData f cacheTime True now s"

definition invalidateCache :: "hook_state \<Rightarrow> hook_state" where
  "invalidateCache s = s\<lparr>cachedData := JNull, lastFetchTime := 0\<rparr>"

text \<open>Wrapped operations used in the examples below.\<close>

fun fails_then_succeeds :: "nat \<Rightarrow> fetch_outcome" where
  "fails_then_succeeds 0 = Threw (new_Error ''network down'')"
| "fails_then_succeeds (Suc n) = Resolved True (JArr [JNum (int (Suc n))]) None"

fun succeeds_then_fails :: "nat \<Rightarrow> fetch_outcome" where
  "succeeds_then_fails 0 = Resolved True (JArr [JNum 0]) None"
| "succeeds_then_fails (Suc n) = Resolved False JNull (Some ''offline'')"

text \<open>An operation that succeeds with the number of earlier invocations as its data.\<close>

definition counts_invocations :: "nat \<Rightarrow> fetch_outcome" where
  "counts_invocations n = Resolved True (JNum (int n)) None"

text \<open>
  An operation whose promise rejects without a reason, as \<open>Promise.reject()\<close> and a
  \<open>reject\<close> callback called with no argument do.
\<close>

definition rejects_without_reason :: "nat \<Rightarrow> fetch_outcome" where
  "rejects_without_reason n = Threw JUndefined"

definition after_first_fetch :: hook_state where
  "after_first_fetch = snd (fetchData succeeds_then_fails 30000 False 1000 init_hook_state)"

text \<open>
  The outcome the specification asks of a failed fetch: the promise resolves to \<open>null\<close>,
  the \<open>error\<close> state holds the message, and both refs are as they were in \<open>s\<close>.
\<close>

definition failed_with ::
  "hook_state \<Rightarrow> (js_error + js_value) \<times> hook_state \<Rightarrow> string \<Rightarrow> bool" where
  "failed_with s r m \<longleftrightarrow>
     fst r = Inr JNull \<and> error (snd r) = JStr m
     \<and> cachedData (snd r) = cachedData s \<and> lastFetchTime (snd r) = lastFetchTime s"

section \<open>JavaScript strings and objects used as dictionaries\<close>

text \<open>
  The strings the view functions trim, compare and lower-case are lists of UTF-16 code
  units, each an integer from 0 to 65535. \<open>utf16\<close> gives the code units of an ASCII
  literal of the source.
\<close>

type_synonym js_string = "int list"

definition utf16 :: "string \<Rightarrow> js_string" where
  "utf16 s = map of_char s"

text \<open>
  The pages group records with \<open>reduce\<close> into an object literal \<open>{}\<close>. An object is the
  list of its own properties in creation order. A read \<open>acc[key]\<close> of a name that is not
  an own property falls through to \<open>Object.prototype\<close>, whose property names are listed
  in \<open>proto_keys\<close>; each of them reads as a truthy value without a \<open>push\<close> method.
\<close>

type_synonym 'a js_object = "(js_string \<times> 'a) list"

definition proto_keys :: "js_string list" where
  "proto_keys =
     map utf16
       [''constructor'', ''__proto__'', ''hasOwnProperty'', ''isPrototypeOf'',
        ''propertyIsEnumerable'', ''toLocaleString'', ''toString'', ''valueOf'',
        ''__defineGetter__'', ''__defineSetter__'', ''__lookupGetter__'', ''__lookupSetter__'']"

text \<open>
  \<open>if (!acc[key]) { acc[key] = [] }; acc[key].push(x)\<close>. An own property holds an array
  (truthy) and receives \<open>x\<close> at its end; an inherited name is truthy too, so nothing is
  assigned and the call of \<open>push\<close> raises a \<open>TypeError\<close>; any other name becomes a new
  last property holding \<open>[x]\<close>.
\<close>

definition push_to :: "js_string \<Rightarrow> 'a \<Rightarrow> 'a list js_object \<Rightarrow> js_error + 'a list js_object" where
  "push_to key x acc =
     (case map_of acc key of
        Some l \<Rightarrow> Inr (map (\<lambda>(k, v). if k = key then (k, v @ [x]) else (k, v)) acc)
      | None \<Rightarrow> if key \<in> set proto_keys then Inl TypeError else Inr (acc @ [(key, [x])]))"

text \<open>\<open>xs.reduce((acc, x) => { ...; return acc }, acc)\<close> with the body above.\<close>

fun reduce_push ::
  "('a \<Rightarrow> js_string) \<Rightarrow> 'a list \<Rightarrow> 'a list js_object \<Rightarrow> js_error + 'a list js_object" where
  "reduce_push key [] acc = Inr acc"
| "reduce_push key (x # xs) acc =
     (case push_to (key x) x acc of Inl e \<Rightarrow> Inl e | Inr acc' \<Rightarrow> reduce_push key xs acc')"

text \<open>
  \<open>Object.entries\<close> lists the properties whose names are array indices (canonical decimal
  numerals below \<open>2^32 - 1\<close>) first, in ascending numeric order, and then the other
  properties in creation order.
\<close>

definition is_digit :: "int \<Rightarrow> bool" where
  "is_digit c \<longleftrightarrow> 48 \<le> c \<and> c \<le> 57"

definition index_value :: "js_string \<Rightarrow> int" where
  "index_value s = foldl (\<lambda>n c. 10 * n + (c - 48)) 0 s"

definition is_array_index :: "js_string \<Rightarrow> bool" where
  "is_array_index s \<longleftrightarrow>
     s \<noteq> [] \<and> list_all is_digit s \<and> (length s = 1 \<or> hd s \<noteq> 48)
     \<and> index_value s < 4294967295"


definition Object_entries :: "'a js_object \<Rightarrow> (js_string \<times> 'a) list" where
  "Object_entries obj =
     sort_key (\<lambda>p. index_value (fst p)) (filter (\<lambda>p. is_array_index (fst p)) obj)
     @ filter (\<lambda>p. \<not> is_array_index (fst p)) obj"

text \<open>
  What the grouping loops are expected to build from the records \<open>xs\<close>: one property per
  key that occurs, holding the records with that key in their original order. The
  properties are expected in the order in which their keys first occur.
\<close>

definition groups_of :: "('a \<Rightarrow> js_string) \<Rightarrow> 'a list \<Rightarrow> 'a list js_object \<Rightarrow> bool" where
  "groups_of key xs obj \<longleftrightarrow>
     distinct (map fst obj) \<and> fst ` set obj = key ` set xs
     \<and> (\<forall>(k, v) \<in> set obj. v = filter (\<lambda>x. key x = k) xs)"


section \<open>Dates\<close>

text \<open>
  A \<open>Date\<close> is its time value, the milliseconds since the epoch. The platform's time
  zone is a parameter: \<open>offsetAt\<close> is the offset of local time from UTC in force at an
  instant, and \<open>offsetOfLocal\<close> is the offset with which a local time value is read back
  as an instant. A local time that a clock change skips or repeats is read with the
  offset in force before the change.
\<close>

record time_zone =
  offsetAt :: "int \<Rightarrow> int"
  offsetOfLocal :: "int \<Rightarrow> int"

definition msPerDay :: int where
  "msPerDay = 86400000"

definition LocalTime :: "time_zone \<Rightarrow> int \<Rightarrow> int" where
  "LocalTime z t = t + offsetAt z t"

definition UTC :: "time_zone \<Rightarrow> int \<Rightarrow> int" where
  "UTC z t = t - offsetOfLocal z t"

definition Day :: "int \<Rightarrow> int" where
  "Day t = t div msPerDay"

definition TimeWithinDay :: "int \<Rightarrow> int" where
  "TimeWithinDay t = t mod msPerDay"

text \<open>
  The calendar of ECMAScript, on day numbers. \<open>DayFromYear y\<close> is the day number of 1
  January of the year \<open>y\<close>; the year of a day is the last year that starts on or before
  it, found from an estimate by the mean length of a year that is off by one at most.
\<close>

definition DayFromYear :: "int \<Rightarrow> int" where
  "DayFromYear y =
     365 * (y - 1970) + (y - 1969) div 4 - (y - 1901) div 100 + (y - 1601) div 400"

definition InLeapYear :: "int \<Rightarrow> int" where
  "InLeapYear y =
     (if y mod 4 \<noteq> 0 then 0 else if y mod 100 \<noteq> 0 then 1 else if y mod 400 \<noteq> 0 then 0
      else 1)"

definition YearFromDay :: "int \<Rightarrow> int" where
  "YearFromDay d =
     (let e = 1970 + (400 * d) div 146097
      in if DayFromYear (e + 1) \<le> d then e + 1
         else if DayFromYear e \<le> d then e
         else e - 1)"

text \<open>
  The day within the year on which a month (0 to 11) starts, \<open>L\<close> being 1 in a leap year
  and 0 otherwise, and the month in which a day within the year lies.
\<close>

definition monthStart :: "int \<Rightarrow> int \<Rightarrow> int" where
  "monthStart m L =
     (if m = 0 then 0 else if m = 1 then 31 else if m = 2 then 59 + L
      else if m = 3 then 90 + L else if m = 4 then 120 + L else if m = 5 then 151 + L
      else if m = 6 then 181 + L else if m = 7 then 212 + L else if m = 8 then 243 + L
      else if m = 9 then 273 + L else if m = 10 then 304 + L else 334 + L)"

definition MonthFromDayWithinYear :: "int \<Rightarrow> int \<Rightarrow> int" where
  "MonthFromDayWithinYear x L =
     (if x < 31 then 0 else if x < 59 + L then 1 else if x < 90 + L then 2
      else if x < 120 + L then 3 else if x < 151 + L then 4 else if x < 181 + L then 5
      else if x < 212 + L then 6 else if x < 243 + L then 7 else if x < 273 + L then 8
      else if x < 304 + L then 9 else if x < 334 + L then 10 else 11)"

text \<open>
  The year, the month (0 to 11) and the day of the month of a day number: what
  \<open>getFullYear\<close>, \<open>getMonth\<close> and \<open>getDate\<close> return for a local time on that day.
\<close>

definition YearMonthDate :: "int \<Rightarrow> int \<times> int \<times> int" where
  "YearMonthDate d =
     (let year = YearFromDay d;
          L = InLeapYear year;
          x = d - DayFromYear year;
          month = MonthFromDayWithinYear x L
      in (year, month, x - monthStart month L + 1))"

text \<open>
  \<open>MakeDay(year, month, date)\<close>: the day number of the first of the month, moved by
  \<open>date - 1\<close> days; \<open>month\<close> and \<open>date\<close> may lie outside the year and the month.
\<close>

definition MakeDay :: "int \<Rightarrow> int \<Rightarrow> int \<Rightarrow> int" where
  "MakeDay year month date =
     (let ym = year + month div 12;
          mn = month mod 12
      in DayFromYear ym + monthStart mn (InLeapYear ym) + date - 1)"

text \<open>
  \<open>new Date(year, month, date)\<close>: local midnight of that date; a year from 0 to 99 stands
  for 1900 plus that year.
\<close>

definition new_Date :: "time_zone \<Rightarrow> int \<Rightarrow> int \<Rightarrow> int \<Rightarrow> int" where
  "new_Date z year month date =
     (let yr = (if 0 \<le> year \<and> year \<le> 99 then 1900 + year else year)
      in UTC z (MakeDay yr month date * msPerDay))"

definition getDate :: "time_zone \<Rightarrow> int \<Rightarrow> int" where
  "getDate z tv = snd (snd (YearMonthDate (Day (LocalTime z tv))))"

text \<open>
  \<open>d.setDate(date)\<close>: the local year, month and time of day of \<open>d\<close> are kept and the day
  of the month is replaced.
\<close>

definition setDate :: "time_zone \<Rightarrow> int \<Rightarrow> int \<Rightarrow> int" where
  "setDate z tv date =
     (let t = LocalTime z tv;
          (year, month, old) = YearMonthDate (Day t)
      in UTC z (MakeDay year month date * msPerDay + TimeWithinDay t))"

text \<open>
  Three zones. UTC; Africa/Cairo around its change to summer time on Friday 24 April
  2026, when the clocks go from 00:00 to 01:00 (the instant 2026-04-23T22:00:00Z), the
  offset being 2 hours before and 3 hours after; America/New_York around its return to
  standard time on Sunday 1 November 2026, when the clocks go from 02:00 to 01:00 (the
  instant 2026-11-01T06:00:00Z), the offset being -4 hours before and -5 hours after.
\<close>

definition utc_zone :: time_zone where
  "utc_zone = \<lparr>offsetAt = (\<lambda>t. 0), offsetOfLocal = (\<lambda>t. 0)\<rparr>"

definition cairo_2026 :: time_zone where
  "cairo_2026 =
     \<lparr>offsetAt = (\<lambda>t. if t < 1776981600000 then 7200000 else 10800000),
      offsetOfLocal = (\<lambda>t. if t < 1776981600000 + 10800000 then 7200000 else 10800000)\<rparr>"

definition new_york_2026 :: time_zone where
  "new_york_2026 =
     \<lparr>offsetAt = (\<lambda>t. if t < 1793512800000 then - 14400000 else - 18000000),
      offsetOfLocal = (\<lambda>t. if t < 1793512800000 - 14400000 then - 14400000 else - 18000000)\<rparr>"

section \<open>Derived views (pages/StoredItemsPage and the documents page)\<close>

text \<open>
  The fields of a stored item and of a document that the view functions read. The
  \<open>created_at\<close> column is kept as the instant \<open>new Date(created_at)\<close> denotes, in
  milliseconds; a column that may be \<open>null\<close> is an \<open>option\<close>. The documents' columns
  \<open>notes\<close> and \<open>created_at\<close> are the fields \<open>doc_notes\<close> and \<open>doc_created_at\<close>.
\<close>

record item =
  item_name :: js_string
  location :: js_string
  category :: "js_string option"
  created_at :: int

record document =
  document_name :: js_string
  document_type :: "js_string option"
  doc_notes :: "js_string option"
  doc_created_at :: int

subsection \<open>Recency flag\<close>

text \<open>Items page: \<open>diffMinutes = (now - created) / (1000 * 60); diffMinutes <= 5\<close>.\<close>

definition isRecentlyAdded_items :: "int \<Rightarrow> int \<Rightarrow> bool" where
  "isRecentlyAdded_items now created =
     (let diffMinutes = real_of_int (now - created) / (1000 * 60) in diffMinutes \<le> 5)"

text \<open>Documents page: \<open>fiveMinutes = 5 * 60 * 1000; (now - addedTime) < fiveMinutes\<close>.\<close>

definition isRecentlyAdded_docs :: "int \<Rightarrow> int \<Rightarrow> bool" where
  "isRecentlyAdded_docs now addedTime =
     (let fiveMinutes = 5 * 60 * 1000 in now - addedTime < fiveMinutes)"

subsection \<open>Timeline groups\<close>

text \<open>
  \<open>getTimelineGroup\<close>, the same on both pages; \<open>now\<close> is the reading of \<open>new Date()\<close> and
  \<open>date\<close> the instant of \<open>new Date(dateString)\<close>.
\<close>

definition getTimelineGroup :: "time_zone \<Rightarrow> int \<Rightarrow> int \<Rightarrow> js_string" where
  "getTimelineGroup z now date =
     (let (ny, nm, nd) = YearMonthDate (Day (LocalTime z now));
          today = new_Date z ny nm nd;
          yesterday = setDate z today (getDate z today - 1);
          lastWeek = setDate z today (getDate z today - 7);
          (iy, im, idt) = YearMonthDate (Day (LocalTime z date));
          itemDate = new_Date z iy im idt
      in if itemDate = today then utf16 ''Today''
         else if itemDate = yesterday then utf16 ''Yesterday''
         else if itemDate \<ge> lastWeek then utf16 ''Last 7 Days''
         else utf16 ''Earlier'')"

text \<open>
  The classification in the specification's words, on calendar dates: \<open>localDay\<close> is the
  number of the local calendar day of an instant, consecutive days having consecutive
  numbers.
\<close>

definition localDay :: "time_zone \<Rightarrow> int \<Rightarrow> int" where
  "localDay z t = Day (LocalTime z t)"

definition timeline_label_spec :: "int \<Rightarrow> int \<Rightarrow> js_string" where
  "timeline_label_spec today itemDay =
     (if itemDay = today then utf16 ''Today''
      else if itemDay = today - 1 then utf16 ''Yesterday''
      else if itemDay \<ge> today - 7 then utf16 ''Last 7 Days''
      else utf16 ''Earlier'')"

text \<open>
  \<open>xs.sort((a, b) => new Date(b.created_at) - new Date(a.created_at))\<close>: a stable sort,
  newest first.
\<close>

definition sort_newest_first :: "('a \<Rightarrow> int) \<Rightarrow> 'a list \<Rightarrow> 'a list" where
  "sort_newest_first created xs = sort_key (\<lambda>r. - created r) xs"

definition timeline_order :: "js_string list" where
  "timeline_order = map utf16 [''Today'', ''Yesterday'', ''Last 7 Days'', ''Earlier'']"

text \<open>
  \<open>timelineGroups\<close>, the same on both pages up to the record type: \<open>created\<close> reads the
  \<open>created_at\<close> column. An element \<open>{groupName, items}\<close> of the result is a pair. The
  clock reading \<open>now\<close> is the same for all records of one run.
\<close>

definition timelineGroups ::
  "time_zone \<Rightarrow> ('a \<Rightarrow> int) \<Rightarrow> int \<Rightarrow> 'a list \<Rightarrow> js_error + (js_string \<times> 'a list) list" where
  "timelineGroups z created now items =
     (if items = [] then Inr []
      else
        case reduce_push (\<lambda>i. getTimelineGroup z now (created i)) items [] of
          Inl e \<Rightarrow> Inl e
        | Inr groups \<Rightarrow>
            let sorted_groups = map (\<lambda>(k, v). (k, sort_newest_first created v)) groups in
            Inr (map (\<lambda>k. (k, case map_of sorted_groups k of Some v \<Rightarrow> v | None \<Rightarrow> []))
                   (filter (\<lambda>k. case map_of sorted_groups k of Some v \<Rightarrow> length v > 0 | None \<Rightarrow> False)
                      timeline_order)))"

subsection \<open>Category and type groups\<close>

text \<open>
  \<open>String.prototype.trim\<close> strips the white space and line terminator code points from
  both ends: tab, line feed, vertical tab, form feed, carriage return, space, no-break
  space, U+1680, U+2000 to U+200A, U+2028, U+2029, U+202F, U+205F, U+3000 and U+FEFF.
\<close>

definition isWhiteSpace :: "int \<Rightarrow> bool" where
  "isWhiteSpace c \<longleftrightarrow>
     c \<in> set [9, 10, 11, 12, 13, 32, 160, 5760, 8232, 8233, 8239, 8287, 12288, 65279]
     \<or> (8192 \<le> c \<and> c \<le> 8202)"

definition trim :: "js_string \<Rightarrow> js_string" where
  "trim s = rev (dropWhile isWhiteSpace (rev (dropWhile isWhiteSpace s)))"

text \<open>\<open>item.category?.trim() || 'Uncategorized'\<close>: the empty string is falsy.\<close>

definition item_key :: "item \<Rightarrow> js_string" where
  "item_key i =
     (case category i of None \<Rightarrow> utf16 ''Uncategorized''
      | Some c \<Rightarrow> if trim c = [] then utf16 ''Uncategorized'' else trim c)"

text \<open>
  \<open>groupedItems\<close>. The comparator \<open>a.localeCompare(b)\<close> belongs to the platform; it is
  taken as a parameter, the collation key \<open>coll\<close> under which it compares two names.
\<close>

definition groupedItems ::
  "(js_string \<Rightarrow> 'k::linorder) \<Rightarrow> item list \<Rightarrow> js_error + (js_string \<times> item list) list" where
  "groupedItems coll items =
     (if items = [] then Inr []
      else
        case reduce_push item_key items [] of
          Inl e \<Rightarrow> Inl e
        | Inr categories \<Rightarrow> Inr (sort_key (\<lambda>p. coll (fst p)) (Object_entries categories)))"




subsection \<open>Filter and search\<close>

text \<open>
  \<open>String.prototype.toLowerCase\<close>. On a string of ASCII characters it turns \<open>A\<close> to \<open>Z\<close>
  into \<open>a\<close> to \<open>z\<close> and leaves the rest. On any other string it applies the case
  mappings of the platform's Unicode tables, which may change the length of the string
  and depend on the neighbours of a letter; they are the parameter \<open>lowerU\<close>.
\<close>

definition ascii :: "js_string \<Rightarrow> bool" where
  "ascii s \<longleftrightarrow> list_all (\<lambda>c. 0 \<le> c \<and> c < 128) s"

definition asciiLower :: "int \<Rightarrow> int" where
  "asciiLower c = (if 65 \<le> c \<and> c \<le> 90 then c + 32 else c)"

definition toLowerCase :: "(js_string \<Rightarrow> js_string) \<Rightarrow> js_string \<Rightarrow> js_string" where
  "toLowerCase lowerU s = (if ascii s then map asciiLower s else lowerU s)"

text \<open>\<open>s.includes(q)\<close>.\<close>

fun startsWith :: "js_string \<Rightarrow> js_string \<Rightarrow> bool" where
  "startsWith s [] = True"
| "startsWith [] (c # q) = False"
| "startsWith (d # s) (c # q) = (d = c \<and> startsWith s q)"

fun includes_str :: "js_string \<Rightarrow> js_string \<Rightarrow> bool" where
  "includes_str [] q = (q = [])"
| "includes_str (c # s) q = (startsWith (c # s) q \<or> includes_str s q)"

definition matchesType :: "js_string \<Rightarrow> document \<Rightarrow> bool" where
  "matchesType filterType doc \<longleftrightarrow>
     filterType = utf16 ''all'' \<or> document_type doc = Some filterType"

definition matchesSearch :: "(js_string \<Rightarrow> js_string) \<Rightarrow> js_string \<Rightarrow> document \<Rightarrow> bool" where
  "matchesSearch lowerU searchQuery doc \<longleftrightarrow>
     searchQuery = []
     \<or> includes_str (toLowerCase lowerU (document_name doc)) (toLowerCase lowerU searchQuery)
     \<or> (case doc_notes doc of None \<Rightarrow> False
        | Some n \<Rightarrow>
            n \<noteq> [] \<and> includes_str (toLowerCase lowerU n) (toLowerCase lowerU searchQuery))"

definition filteredDocuments ::
  "(js_string \<Rightarrow> js_string) \<Rightarrow> document list \<Rightarrow> js_string \<Rightarrow> js_string \<Rightarrow> document list" where
  "filteredDocuments lowerU documents filterType searchQuery =
     filter (\<lambda>doc. matchesType filterType doc \<and> matchesSearch lowerU searchQuery doc) documents"

text \<open>
  The specification's phrases. \<open>is_part q s\<close>: the string \<open>q\<close> occurs in \<open>s\<close> as a
  contiguous part. \<open>same_letter\<close>: two code units are equal or are the capital and the
  small form of one letter of the ASCII alphabet. \<open>ci_substring q s\<close>: some contiguous
  part of \<open>s\<close> agrees with \<open>q\<close> code unit by code unit up to the case of the letters.
\<close>

definition is_part :: "js_string \<Rightarrow> js_string \<Rightarrow> bool" where
  "is_part q s \<longleftrightarrow> (\<exists>pre post. s = pre @ q @ post)"

definition same_letter :: "int \<Rightarrow> int \<Rightarrow> bool" where
  "same_letter c d \<longleftrightarrow>
     c = d \<or> (65 \<le> c \<and> c \<le> 90 \<and> d = c + 32) \<or> (65 \<le> d \<and> d \<le> 90 \<and> c = d + 32)"

definition ci_substring :: "js_string \<Rightarrow> js_string \<Rightarrow> bool" where
  "ci_substring q s \<longleftrightarrow> (\<exists>pre w post. s = pre @ w @ post \<and> list_all2 same_letter w q)"

text \<open>
  The Unicode lower-casing on strings of ASCII characters and sigmas: the capital sigma
  U+03A3 becomes the final sigma U+03C2 when a cased letter stands before it and none
  after it, and the small sigma U+03C3 otherwise.
\<close>

definition cased :: "int \<Rightarrow> bool" where
  "cased c \<longleftrightarrow> (65 \<le> c \<and> c \<le> 90) \<or> (97 \<le> c \<and> c \<le> 122) \<or> c \<in> set [931, 962, 963]"

fun lower_sigma :: "bool \<Rightarrow> js_string \<Rightarrow> js_string" where
  "lower_sigma prev [] = []"
| "lower_sigma prev (c # cs) =
     (if c = 931
      then (if prev \<and> \<not> (case cs of [] \<Rightarrow> False | d # ds \<Rightarrow> cased d) then 962 else 963)
      else asciiLower c) # lower_sigma (cased c) cs"

definition lower_with_sigma :: "js_string \<Rightarrow> js_string" where
  "lower_with_sigma s = lower_sigma False s"

subsection \<open>Example records\<close>

text \<open>The record of the specification's search example, and a document named \<open>A\<Sigma>\<close>.\<close>

definition car_keys :: document where
  "car_keys = \<lparr>document_name = utf16 ''Car Keys'', document_type = Some (utf16 ''other''),
                doc_notes = Some (utf16 ''spare''), doc_created_at = 0\<rparr>"

definition a_sigma :: document where
  "a_sigma = \<lparr>document_name = [65, 931], document_type = Some (utf16 ''other''),
               doc_notes = None, doc_created_at = 0\<rparr>"

text \<open>
  The records of the specification's timeline example, seen at noon of day 20 in UTC:
  created ten days before, one day before and at that instant.
\<close>

definition noon20 :: int where
  "noon20 = 20 * 86400000 + 43200000"

definition timeline_example :: "item list" where
  "timeline_example =
     [\<lparr>item_name = utf16 ''old'', location = utf16 ''attic'', category = None,
       created_at = noon20 - 10 * 86400000\<rparr>,
      \<lparr>item_name = utf16 ''mid'', location = utf16 ''desk'', category = None,
       created_at = noon20 - 1 * 86400000\<rparr>,
      \<lparr>item_name = utf16 ''new'', location = utf16 ''shelf'', category = None,
       created_at = noon20\<rparr>]"

text \<open>
  An item stored in Cairo on Thursday 23 April 2026 at noon (2026-04-23T10:00:00Z), and
  the instant at which the list is viewed, Friday 24 April 2026 at 13:00 in Cairo
  (2026-04-24T10:00:00Z).
\<close>

definition cairo_thursday_item :: item where
  "cairo_thursday_item =
     \<lparr>item_name = utf16 ''keys'', location = utf16 ''drawer'', category = None,
      created_at = 1776938400000\<rparr>"

definition cairo_friday :: int where
  "cairo_friday = 1777024800000"



section \<open>Debounced suggestions (documents page)\<close>

text \<open>
  The state the suggestions effect reads and writes. \<open>debounceTimer\<close> is the pending
  \<open>setTimeout\<close>, if any: the instant at which it is due and the \<open>searchQuery\<close> its
  callback closed over. The field \<open>fetched\<close> is not in the source: it records the
  arguments of the calls of \<open>getDocumentSuggestions\<close> made so far, oldest first.
\<close>

record 'd suggest_state =
  searchQuery :: string
  suggestions :: "'d list"
  showSuggestions :: bool
  loadingSuggestions :: bool
  debounceTimer :: "(int \<times> string) option"
  fetched :: "string list"

text \<open>
  The callback \<open>fetchSuggestions\<close> for the captured query \<open>q\<close>, run to the end with the
  result \<open>{success, data}\<close> that \<open>getDocumentSuggestions(q)\<close> resolves to.
\<close>

definition fetchSuggestions ::
  "(string \<Rightarrow> bool \<times> 'd list) \<Rightarrow> string \<Rightarrow> 'd suggest_state \<Rightarrow> 'd suggest_state" where
  "fetchSuggestions api q s =
     (if length q < 2 then s\<lparr>suggestions := [], showSuggestions := False\<rparr>
      else
        let s1 = s\<lparr>loadingSuggestions := True, fetched := fetched s @ [q]\<rparr>;
            result = api q;
            s2 = (if fst result \<and> length (snd result) > 0
                  then s1\<lparr>suggestions := snd result, showSuggestions := True\<rparr>
                  else s1\<lparr>suggestions := [], showSuggestions := False\<rparr>)
        in s2\<lparr>loadingSuggestions := False\<rparr>)"

text \<open>
  The component mounts at instant \<open>t\<close>: the effect runs for the initial empty query and
  sets the first timer.
\<close>

definition mount :: "int \<Rightarrow> 'd suggest_state" where
  "mount t =
     \<lparr>searchQuery = [], suggestions = [], showSuggestions = False, loadingSuggestions = False,
      debounceTimer = Some (t + 150, []), fetched = []\<rparr>"

text \<open>
  \<open>onChange\<close> calls \<open>setSearchQuery(q)\<close> at instant \<open>t\<close>. A changed value re-runs the
  effect: its cleanup clears the pending timer and \<open>setTimeout(fetchSuggestions, 150)\<close>
  sets a new one. An unchanged value re-runs nothing.
\<close>

definition setSearchQuery :: "int \<Rightarrow> string \<Rightarrow> 'd suggest_state \<Rightarrow> 'd suggest_state" where
  "setSearchQuery t q s =
     (if q = searchQuery s then s
      else s\<lparr>searchQuery := q, debounceTimer := Some (t + 150, q)\<rparr>)"

text \<open>The clock reaches \<open>now\<close>: a timer that is due fires and runs its callback.\<close>

definition clock_reaches ::
  "(string \<Rightarrow> bool \<times> 'd list) \<Rightarrow> int \<Rightarrow> 'd suggest_state \<Rightarrow> 'd suggest_state" where
  "clock_reaches api now s =
     (case debounceTimer s of
        None \<Rightarrow> s
      | Some (due, q) \<Rightarrow>
          if due \<le> now then fetchSuggestions api q (s\<lparr>debounceTimer := None\<rparr>) else s)"

datatype suggest_event = Change int string | Clock int

fun suggest_step ::
  "(string \<Rightarrow> bool \<times> 'd list) \<Rightarrow> suggest_event \<Rightarrow> 'd suggest_state \<Rightarrow> 'd suggest_state" where
  "suggest_step api (Change t q) s = setSearchQuery t q s"
| "suggest_step api (Clock now) s = clock_reaches api now s"

definition suggest_run ::
  "(string \<Rightarrow> bool \<times> 'd list) \<Rightarrow> suggest_event list \<Rightarrow> 'd suggest_state \<Rightarrow> 'd suggest_state" where
  "suggest_run api evs s = fold (suggest_step api) evs s"

text \<open>A backend for the examples: one suggestion for every query.\<close>

definition one_hit :: "string \<Rightarrow> bool \<times> nat list" where
  "one_hit q = (True, [length q])"

section \<open>Properties of \<open>DataCache\<close>\<close>

lemma apply_cache_op_dom:
  assumes "dom (cache c) = dom (timestamps c)"
  shows "dom (cache (apply_cache_op p c)) = dom (timestamps (apply_cache_op p c))"
proof (cases p)
  case (Pair now op)
  show ?thesis
  proof (cases op)
    case (Set k v ttl)
    with Pair assms show ?thesis by (simp add: cache_set_def)
  next
    case (Get k)
    with Pair assms show ?thesis
      by (simp add: cache_get_def split: option.splits)
  next
    case (Invalidate k)
    with Pair assms show ?thesis by (simp add: invalidate_def)
  next
    case Clear
    with Pair show ?thesis by (simp add: clear_def)
  qed
qed

lemma fold_cache_ops_dom:
  "dom (cache c) = dom (timestamps c) \<Longrightarrow>
   dom (cache (fold apply_cache_op ops c)) = dom (timestamps (fold apply_cache_op ops c))"
proof (induction ops arbitrary: c)
  case Nil
  then show ?case by simp
next
  case (Cons p ops)
  from Cons.prems have "dom (cache (apply_cache_op p c)) = dom (timestamps (apply_cache_op p c))"
    by (rule apply_cache_op_dom)
  then show ?case using Cons.IH by simp
qed

text \<open>
  C10. Starting from the freshly constructed cache, after any finite sequence of
  \<open>set\<close>, \<open>get\<close>, \<open>invalidate\<close> and \<open>clear\<close> calls (at any clock readings) the value map
  and the expiry map have exactly the same keys.
\<close>

theorem DataCache_same_keys:
  "dom (cache (run_cache_ops ops new_DataCache)) = dom (timestamps (run_cache_ops ops new_DataCache))"
  unfolding run_cache_ops_def
  by (rule fold_cache_ops_dom) (simp add: new_DataCache_def)

text \<open>
  C3, as stated, fails: the expiry test is the strict \<open>Date.now() > expiry\<close>, so a
  \<open>get\<close> in the same millisecond as a \<open>set\<close> with \<open>ttl = 0\<close> still returns the value and
  keeps the entry.
\<close>

theorem cache_ttl0_same_instant_counterexample:
  "cache_get 1000 ''k'' (cache_set 1000 ''k'' (7::nat) 0 new_DataCache)
     = (Some 7, cache_set 1000 ''k'' 7 0 new_DataCache)"
  by (simp add: cache_get_def cache_set_def new_DataCache_def)

text \<open>
  C3, amended. After \<open>set(key, value, ttl)\<close> at instant \<open>t\<close>, a \<open>get(key)\<close> at any instant
  strictly after the expiry \<open>t + ttl\<close> (for \<open>ttl = 0\<close>: strictly after \<open>t\<close>) returns absent
  and removes the key from both maps, and every later \<open>get(key)\<close>, at whatever instant,
  is absent again and leaves the cache as it is. A \<open>get(key)\<close> at an instant not after the
  expiry returns the value and leaves the cache as it is, provided the expiry is not the
  number 0; an expiry of 0 is falsy, and the entry then reads as absent at every instant.
\<close>

theorem cache_get_after_expiry:
  "(t + ttl < now \<longrightarrow>
      fst (cache_get now key (cache_set t key v ttl c)) = None
    \<and> cache (snd (cache_get now key (cache_set t key v ttl c))) key = None
    \<and> timestamps (snd (cache_get now key (cache_set t key v ttl c))) key = None
    \<and> (\<forall>now'. cache_get now' key (snd (cache_get now key (cache_set t key v ttl c)))
               = (None, snd (cache_get now key (cache_set t key v ttl c)))))
   \<and> (now \<le> t + ttl \<and> t + ttl \<noteq> 0 \<longrightarrow>
        cache_get now key (cache_set t key v ttl c) = (Some v, cache_set t key v ttl c))
   \<and> (t + ttl = 0 \<longrightarrow>
        fst (cache_get now key (cache_set t key v ttl c)) = None
      \<and> cache (snd (cache_get now key (cache_set t key v ttl c))) key = None
      \<and> timestamps (snd (cache_get now key (cache_set t key v ttl c))) key = None)"
  by (simp add: cache_get_def cache_set_def)

theorem cache_get_after_expiry_witness:
  "fst (cache_get 1001 ''k'' (cache_set 1000 ''k'' (7::nat) 0 new_DataCache)) = None
   \<and> cache (snd (cache_get 1001 ''k'' (cache_set 1000 ''k'' (7::nat) 0 new_DataCache))) ''k'' = None
   \<and> timestamps (snd (cache_get 1001 ''k'' (cache_set 1000 ''k'' (7::nat) 0 new_DataCache))) ''k''
       = None
   \<and> cache_get 31000 ''k'' (cache_set 1000 ''k'' (7::nat) 30000 new_DataCache)
       = (Some 7, cache_set 1000 ''k'' 7 30000 new_DataCache)
   \<and> fst (cache_get 5 ''k'' (cache_set 1000 ''k'' (7::nat) (-1000) new_DataCache)) = None"
  using cache_get_after_expiry [of 1000 0 1001 "''k''" "7::nat" new_DataCache]
    cache_get_after_expiry [of 1000 30000 31000 "''k''" "7::nat" new_DataCache]
    cache_get_after_expiry [of 1000 "-1000" 5 "''k''" "7::nat" new_DataCache]
  by simp

section \<open>Properties of \<open>useCachedData\<close>\<close>

lemma after_first_fetch_eq:
  "after_first_fetch =
     \<lparr>data = JArr [JNum 0], loading = False, error = JNull, lastFetchTime = 1000,
      cachedData = JArr [JNum 0], calls = 1\<rparr>"
  by (simp add: after_first_fetch_def fetchData_def fetchData_try_def cache_fresh_def
      init_hook_state_def)

text \<open>
  C1, as stated, fails in three ways. A failed fetch is not cached: when the first
  \<open>fetch(false)\<close> fails, a second one a second later invokes the operation again (two
  invocations) and the two calls return \<open>null\<close> and the data. Freshness is measured from
  the last successful fetch, not from the first of the two calls: with a value cached at
  instant 1000 and \<open>cacheTime = 30000\<close>, a call at 30000 is served from the cache and a
  call at 32000 fetches anew and returns other data. And the cache is tested for
  truthiness: after a success with the data \<open>0\<close>, a call a second later invokes the
  operation again and returns \<open>1\<close>.
\<close>

theorem fetch_twice_counterexample:
  "calls (snd (fetchData fails_then_succeeds 30000 False 2000
           (snd (fetchData fails_then_succeeds 30000 False 1000 init_hook_state)))) = 2
   \<and> fst (fetchData fails_then_succeeds 30000 False 1000 init_hook_state) = Inr JNull
   \<and> fst (fetchData fails_then_succeeds 30000 False 2000
           (snd (fetchData fails_then_succeeds 30000 False 1000 init_hook_state)))
       = Inr (JArr [JNum 1])
   \<and> fst (fetchData fails_then_succeeds 30000 False 30000 after_first_fetch)
       = Inr (JArr [JNum 0])
   \<and> fst (fetchData fails_then_succeeds 30000 False 32000
           (snd (fetchData fails_then_succeeds 30000 False 30000 after_first_fetch)))
       = Inr (JArr [JNum 1])
   \<and> fst (fetchData counts_invocations 30000 False 1000 init_hook_state) = Inr (JNum 0)
   \<and> fst (fetchData counts_invocations 30000 False 2000
           (snd (fetchData counts_invocations 30000 False 1000 init_hook_state)))
       = Inr (JNum 1)
   \<and> calls (snd (fetchData counts_invocations 30000 False 2000
           (snd (fetchData counts_invocations 30000 False 1000 init_hook_state)))) = 2"
  by (simp add: fetchData_def fetchData_try_def cache_fresh_def init_hook_state_def
      after_first_fetch_eq new_Error_def counts_invocations_def)

text \<open>
  C1, amended. Take two calls \<open>fetch(false)\<close> at instants \<open>t1\<close> and \<open>t2\<close> with
  \<open>t2 - t1 < cacheTime\<close>, the second starting after the first has settled and nothing
  else touching the hook in between. If the first call invokes the operation and the
  operation succeeds with truthy data \<open>d\<close>, the second call invokes nothing and both
  return \<open>d\<close>: one invocation in all. If the first call is served from the cache and the
  cache is still fresh at \<open>t2\<close>, neither call invokes the operation and both return the
  cached value.
\<close>

theorem fetch_twice_same_data:
  assumes "t2 - t1 < cacheTime"
  shows "(\<not> cache_fresh cacheTime False t1 s \<and> f (calls s) = Resolved True d e \<and> truthy d \<longrightarrow>
            fst (fetchData f cacheTime False t1 s) = Inr d
          \<and> fst (fetchData f cacheTime False t2 (snd (fetchData f cacheTime False t1 s))) = Inr d
          \<and> calls (snd (fetchData f cacheTime False t2 (snd (fetchData f cacheTime False t1 s))))
              = calls s + 1)
       \<and> (cache_fresh cacheTime False t1 s \<and> cache_fresh cacheTime False t2 s \<longrightarrow>
            fst (fetchData f cacheTime False t1 s) = Inr (cachedData s)
          \<and> fst (fetchData f cacheTime False t2 (snd (fetchData f cacheTime False t1 s)))
              = Inr (cachedData s)
          \<and> calls (snd (fetchData f cacheTime False t2 (snd (fetchData f cacheTime False t1 s))))
              = calls s)"
  using assms
  by (simp add: fetchData_def fetchData_try_def cache_fresh_def)

theorem fetch_twice_same_data_witness:
  "fst (fetchData succeeds_then_fails 30000 False 1000 init_hook_state) = Inr (JArr [JNum 0])
   \<and> fst (fetchData succeeds_then_fails 30000 False 2000
          (snd (fetchData succeeds_then_fails 30000 False 1000 init_hook_state)))
       = Inr (JArr [JNum 0])
   \<and> calls (snd (fetchData succeeds_then_fails 30000 False 2000
          (snd (fetchData succeeds_then_fails 30000 False 1000 init_hook_state)))) = 1"
proof -
  have w: "(2000::int) - 1000 < 30000" by simp
  have miss: "\<not> cache_fresh 30000 False 1000 init_hook_state"
    by (simp add: cache_fresh_def init_hook_state_def)
  have out: "succeeds_then_fails (calls init_hook_state) = Resolved True (JArr [JNum 0]) None"
    by (simp add: init_hook_state_def)
  have tr: "truthy (JArr [JNum 0])" by simp
  from fetch_twice_same_data [OF w, where s = init_hook_state and f = succeeds_then_fails
      and d = "JArr [JNum 0]" and e = None] miss out tr
  show ?thesis by (simp add: init_hook_state_def)
qed

text \<open>
  When \<open>fetchData\<close> gets past the freshness test and the wrapped operation resolves with
  \<open>success = false\<close> or throws an \<open>Error\<close> with message \<open>m\<close>, the promise of \<open>fetchData\<close>
  resolves to \<open>null\<close>, the \<open>error\<close> state holds the message, and \<open>cachedData\<close> and
  \<open>lastFetchTime\<close> are what they were. The cache is left alone whatever is thrown.
\<close>

lemma fetch_failure_keeps_cache:
  assumes "\<not> cache_fresh cacheTime force now s"
  shows "(f (calls s) = Threw (new_Error m) \<longrightarrow>
            failed_with s (fetchData f cacheTime force now s) m)
       \<and> (f (calls s) = Resolved False d e \<longrightarrow>
            failed_with s (fetchData f cacheTime force now s) (error_or_default e))"
  using assms
  by (simp add: fetchData_def fetchData_try_def failed_with_def new_Error_def)

lemma fetch_thrown_keeps_cache:
  assumes "f (calls s) = Threw v"
  shows "cachedData (snd (fetchData f cacheTime force now s)) = cachedData s
       \<and> lastFetchTime (snd (fetchData f cacheTime force now s)) = lastFetchTime s"
  using assms
  by (simp add: fetchData_def fetchData_try_def split: sum.splits)

text \<open>
  C2. The claim holds for an operation that resolves with \<open>success = false\<close> or throws
  an \<open>Error\<close> (\<open>fetch_failure_keeps_cache\<close>). It fails for an operation whose promise
  rejects with \<open>undefined\<close> (or \<open>null\<close>): the \<open>catch\<close> clause reads \<open>err.message\<close>, the read
  raises a \<open>TypeError\<close>, and the promise of \<open>fetchData\<close> rejects with it; no message is
  recorded, the \<open>error\<close> state stays \<open>null\<close>. The cached value and its timestamp are left
  as they were.
\<close>

theorem fetch_rejection_escapes:
  "fst (fetchData rejects_without_reason 30000 True 5000 after_first_fetch) = Inl TypeError
   \<and> error (snd (fetchData rejects_without_reason 30000 True 5000 after_first_fetch)) = JNull
   \<and> cachedData (snd (fetchData rejects_without_reason 30000 True 5000 after_first_fetch))
       = JArr [JNum 0]
   \<and> lastFetchTime (snd (fetchData rejects_without_reason 30000 True 5000 after_first_fetch))
       = 1000"
  by (simp add: fetchData_def fetchData_try_def cache_fresh_def after_first_fetch_eq
      rejects_without_reason_def)

text \<open>
  C6, as stated, fails: a \<open>refresh()\<close> whose fetch fails does invoke the operation but
  leaves the stored timestamp where it was (here 1000, the refresh running at 5000 on a
  cache that was still fresh).
\<close>

theorem refresh_failure_counterexample:
  "lastFetchTime after_first_fetch = 1000
   \<and> cache_fresh 30000 False 5000 after_first_fetch
   \<and> lastFetchTime (snd (refresh succeeds_then_fails 30000 5000 after_first_fetch)) = 1000
   \<and> calls (snd (refresh succeeds_then_fails 30000 5000 after_first_fetch)) = 2"
  by (simp add: after_first_fetch_eq refresh_def fetchData_def fetchData_try_def cache_fresh_def
      new_Error_def)

text \<open>
  C6, amended. Every \<open>refresh()\<close> invokes the wrapped operation exactly once, however
  fresh the cached value is; when that invocation succeeds, the stored timestamp becomes
  the instant of the call and the cached value and the result are the fetched data; when
  it fails, by \<open>success = false\<close> or by throwing, the stored timestamp and the cached
  value stay as they were.
\<close>

theorem refresh_always_fetches:
  "calls (snd (refresh f cacheTime now s)) = calls s + 1
   \<and> (f (calls s) = Resolved True d e \<longrightarrow>
        lastFetchTime (snd (refresh f cacheTime now s)) = now
      \<and> cachedData (snd (refresh f cacheTime now s)) = d
      \<and> fst (refresh f cacheTime now s) = Inr d)
   \<and> (f (calls s) = Resolved False d e \<or> f (calls s) = Threw v \<longrightarrow>
        lastFetchTime (snd (refresh f cacheTime now s)) = lastFetchTime s
      \<and> cachedData (snd (refresh f cacheTime now s)) = cachedData s)"
  by (cases "f (calls s)")
     (auto simp add: refresh_def fetchData_def fetchData_try_def cache_fresh_def Let_def
        split: sum.splits)

theorem refresh_always_fetches_witness:
  "fails_then_succeeds (calls after_first_fetch) = Resolved True (JArr [JNum 1]) None
   \<and> cache_fresh 30000 False 5000 after_first_fetch
   \<and> calls (snd (refresh fails_then_succeeds 30000 5000 after_first_fetch)) = 2
   \<and> lastFetchTime (snd (refresh fails_then_succeeds 30000 5000 after_first_fetch)) = 5000
   \<and> cachedData (snd (refresh fails_then_succeeds 30000 5000 after_first_fetch))
       = JArr [JNum 1]"
  using refresh_always_fetches [of fails_then_succeeds 30000 5000 after_first_fetch
      "JArr [JNum 1]" None]
  by (simp add: after_first_fetch_eq cache_fresh_def)

section \<open>Properties of the derived views\<close>

subsection \<open>Recency flag\<close>

lemma isRecentlyAdded_items_iff:
  "isRecentlyAdded_items now created \<longleftrightarrow> now - created \<le> 300000"
proof -
  have "real_of_int (now - created) / (1000 * 60) \<le> 5
          \<longleftrightarrow> real_of_int (now - created) \<le> real_of_int 300000"
    by (simp add: field_simps)
  also have "\<dots> \<longleftrightarrow> now - created \<le> 300000"
    by (simp only: of_int_le_iff)
  finally show ?thesis by (simp add: isRecentlyAdded_items_def Let_def)
qed

lemma isRecentlyAdded_docs_iff:
  "isRecentlyAdded_docs now created \<longleftrightarrow> now - created < 300000"
  by (simp add: isRecentlyAdded_docs_def Let_def)

lemma recent_four_and_six_minutes:
  "isRecentlyAdded_items now (now - 4 * 60000) \<and> \<not> isRecentlyAdded_items now (now - 6 * 60000)
   \<and> isRecentlyAdded_docs now (now - 4 * 60000) \<and> \<not> isRecentlyAdded_docs now (now - 6 * 60000)"
  by (simp add: isRecentlyAdded_items_iff isRecentlyAdded_docs_iff)

text \<open>
  C7. The items page flags a record exactly when \<open>now - createdAt\<close> is at most five
  minutes (\<open>isRecentlyAdded_items_iff\<close>), and both pages agree four and six minutes after
  creation. The documents page compares strictly (\<open>isRecentlyAdded_docs_iff\<close>): a
  document created exactly 300000 ms ago is not flagged, while the items page flags an
  item of the same age.
\<close>

theorem recent_boundary_docs_differs:
  "isRecentlyAdded_items 1700000300000 1700000000000
   \<and> \<not> isRecentlyAdded_docs 1700000300000 1700000000000"
  by (simp add: isRecentlyAdded_items_def isRecentlyAdded_docs_def)

subsection \<open>Filter and search\<close>

lemma startsWith_iff: "startsWith s q \<longleftrightarrow> (\<exists>post. s = q @ post)"
  by (induction s q rule: startsWith.induct) auto

lemma includes_str_iff: "includes_str s q \<longleftrightarrow> is_part q s"
  unfolding is_part_def
proof (induction s)
  case Nil
  then show ?case by auto
next
  case (Cons c s)
  show ?case
  proof
    assume "includes_str (c # s) q"
    then consider "startsWith (c # s) q" | "includes_str s q" by auto
    then show "\<exists>pre post. c # s = pre @ q @ post"
    proof cases
      case 1
      then obtain post where "c # s = q @ post" by (auto simp: startsWith_iff)
      then have "c # s = [] @ q @ post" by simp
      then show ?thesis by blast
    next
      case 2
      with Cons.IH obtain pre post where "s = pre @ q @ post" by auto
      then have "c # s = (c # pre) @ q @ post" by simp
      then show ?thesis by blast
    qed
  next
    assume "\<exists>pre post. c # s = pre @ q @ post"
    then obtain pre post where eq: "c # s = pre @ q @ post" by blast
    show "includes_str (c # s) q"
    proof (cases pre)
      case Nil
      with eq have "startsWith (c # s) q" by (auto simp: startsWith_iff)
      then show ?thesis by simp
    next
      case (Cons a pre')
      with eq have "s = pre' @ q @ post" by simp
      with Cons.IH have "includes_str s q" by blast
      then show ?thesis by simp
    qed
  qed
qed

text \<open>Two code units have the same lower-case form exactly when they are the same letter.\<close>

lemma asciiLower_eq_iff: "asciiLower c = asciiLower d \<longleftrightarrow> same_letter c d"
  by (auto simp: asciiLower_def same_letter_def)

lemma map_asciiLower_eq_iff:
  "map asciiLower w = map asciiLower q \<longleftrightarrow> list_all2 same_letter w q"
proof -
  have "map asciiLower w = map asciiLower q
          \<longleftrightarrow> list_all2 (\<lambda>c d. asciiLower c = asciiLower d) w q"
    by (simp add: list_all2_map1 list_all2_map2 flip: list.rel_eq)
  then show ?thesis by (simp add: asciiLower_eq_iff)
qed

lemma ascii_append: "ascii (xs @ ys) \<longleftrightarrow> ascii xs \<and> ascii ys"
  by (simp add: ascii_def)

text \<open>
  On ASCII strings the source's test \<open>field.toLowerCase().includes(query.toLowerCase())\<close>
  is the specification's "case-insensitive substring".
\<close>

lemma ascii_lower_part_iff:
  assumes "ascii q" and "ascii s"
  shows "is_part (toLowerCase lowerU q) (toLowerCase lowerU s) \<longleftrightarrow> ci_substring q s"
proof
  assume "is_part (toLowerCase lowerU q) (toLowerCase lowerU s)"
  with assms obtain pre post where h: "map asciiLower s = pre @ (map asciiLower q @ post)"
    unfolding is_part_def toLowerCase_def by auto
  from h [unfolded map_eq_append_conv]
  obtain a r where s: "s = a @ r" and r: "map asciiLower q @ post = map asciiLower r"
    by blast
  from r [symmetric, unfolded map_eq_append_conv]
  obtain w c where "r = w @ c" and "map asciiLower q = map asciiLower w"
    by blast
  with s have "s = a @ w @ c \<and> list_all2 same_letter w q"
    by (simp add: map_asciiLower_eq_iff [symmetric])
  then show "ci_substring q s"
    unfolding ci_substring_def by blast
next
  assume "ci_substring q s"
  then obtain pre w post where s: "s = pre @ w @ post" and "list_all2 same_letter w q"
    unfolding ci_substring_def by blast
  then have "map asciiLower w = map asciiLower q"
    by (simp add: map_asciiLower_eq_iff)
  with s have "map asciiLower s = map asciiLower pre @ map asciiLower q @ map asciiLower post"
    by simp
  with assms show "is_part (toLowerCase lowerU q) (toLowerCase lowerU s)"
    unfolding is_part_def toLowerCase_def by auto
qed

lemma matchesSearch_iff:
  "matchesSearch lowerU q doc \<longleftrightarrow>
     q = [] \<or> is_part (toLowerCase lowerU q) (toLowerCase lowerU (document_name doc))
     \<or> (\<exists>n. doc_notes doc = Some n \<and> n \<noteq> []
            \<and> is_part (toLowerCase lowerU q) (toLowerCase lowerU n))"
  by (cases "doc_notes doc") (simp_all add: matchesSearch_def includes_str_iff)

lemma sigma_is_in_a_sigma: "ci_substring [931] (document_name a_sigma)"
proof -
  have "document_name a_sigma = [65] @ [931] @ []"
    by (simp add: a_sigma_def)
  moreover have "list_all2 same_letter [931] [931]"
    by (simp add: same_letter_def)
  ultimately show ?thesis
    unfolding ci_substring_def by blast
qed

text \<open>
  C8, as stated, fails: lower-casing a whole string is not lower-casing its letters one
  by one. The name \<open>A\<Sigma>\<close> becomes \<open>a\<close> followed by the final sigma, the query \<open>\<Sigma>\<close> becomes
  the small sigma, and the document is not in the visible list although the query is a
  part of its name as it stands.
\<close>

theorem sigma_query_counterexample:
  "filteredDocuments lower_with_sigma [a_sigma] (utf16 ''all'') [931] = []
   \<and> ci_substring [931] (document_name a_sigma)
   \<and> document_name a_sigma = [65] @ [931] @ []
   \<and> lower_with_sigma [65, 931] = [97, 962]
   \<and> lower_with_sigma [931] = [963]"
proof -
  have "filteredDocuments lower_with_sigma [a_sigma] (utf16 ''all'') [931] = []"
    "document_name a_sigma = [65] @ [931] @ []"
    "lower_with_sigma [65, 931] = [97, 962]"
    "lower_with_sigma [931] = [963]"
    by code_simp+
  with sigma_is_in_a_sigma show ?thesis by (intro conjI)
qed

text \<open>
  C8, amended. A record is in the visible list exactly when it is in the source list,
  the type filter is \<open>all\<close> or equals the record's type, and the query is empty or the
  lower-cased query (by \<open>toLowerCase\<close>) is a contiguous part of the lower-cased name or
  of the lower-cased non-empty notes. When the query and the field consist of ASCII
  characters, this test is: the query is a case-insensitive substring of the field.
\<close>

theorem filteredDocuments_iff:
  "(doc \<in> set (filteredDocuments lowerU documents filterType q) \<longleftrightarrow>
      doc \<in> set documents
      \<and> (filterType = utf16 ''all'' \<or> document_type doc = Some filterType)
      \<and> (q = [] \<or> is_part (toLowerCase lowerU q) (toLowerCase lowerU (document_name doc))
         \<or> (\<exists>n. doc_notes doc = Some n \<and> n \<noteq> []
                \<and> is_part (toLowerCase lowerU q) (toLowerCase lowerU n))))
   \<and> (ascii q \<and> ascii s \<longrightarrow>
        (is_part (toLowerCase lowerU q) (toLowerCase lowerU s) \<longleftrightarrow> ci_substring q s))"
  using ascii_lower_part_iff [of q s lowerU]
  by (simp add: filteredDocuments_def matchesType_def matchesSearch_iff)

lemma car_keys_eval:
  "filteredDocuments lower_with_sigma [car_keys] (utf16 ''all'') (utf16 ''KEYS'') = [car_keys]"
  "filteredDocuments lower_with_sigma [car_keys] (utf16 ''all'') (utf16 ''Spare'') = [car_keys]"
  "filteredDocuments lower_with_sigma [car_keys] (utf16 ''all'') (utf16 ''wallet'') = []"
  "filteredDocuments lower_with_sigma [car_keys] (utf16 ''passport'') (utf16 ''keys'') = []"
  "ascii (utf16 ''KEYS'')" "ascii (utf16 ''Car Keys'')" "ascii (utf16 ''spare'')"
  by code_simp+

theorem filteredDocuments_iff_witness:
  "filteredDocuments lower_with_sigma [car_keys] (utf16 ''all'') (utf16 ''KEYS'') = [car_keys]
   \<and> ci_substring (utf16 ''KEYS'') (utf16 ''Car Keys'')"
proof -
  have p: "is_part (toLowerCase lower_with_sigma (utf16 ''KEYS''))
             (toLowerCase lower_with_sigma (utf16 ''Car Keys''))"
    unfolding includes_str_iff [symmetric] by code_simp
  from filteredDocuments_iff [of car_keys lower_with_sigma "[car_keys]" "utf16 ''all''"
        "utf16 ''KEYS''" "utf16 ''Car Keys''"] car_keys_eval(5,6) p
  have "ci_substring (utf16 ''KEYS'') (utf16 ''Car Keys'')"
    by blast
  with car_keys_eval(1) show ?thesis by (intro conjI)
qed

subsection \<open>The grouping loop\<close>

lemma groups_of_Nil: "groups_of key [] []"
  by (simp add: groups_of_def)

lemma push_to_new:
  assumes inv: "groups_of key xs acc" and none: "map_of acc (key x) = None"
    and ok: "key x \<notin> set proto_keys"
  shows "push_to (key x) x acc = Inr (acc @ [(key x, [x])])
       \<and> groups_of key (xs @ [x]) (acc @ [(key x, [x])])"
proof -
  from none have notin: "key x \<notin> fst ` set acc"
    by (simp add: map_of_eq_None_iff)
  with inv have fresh: "key x \<notin> key ` set xs"
    by (simp add: groups_of_def)
  then have "\<forall>y \<in> set xs. key y \<noteq> key x"
    by (metis image_eqI)
  then have empty: "filter (\<lambda>y. key y = key x) xs = []"
    by (simp add: filter_empty_conv)
  have old: "v = filter (\<lambda>y. key y = k) (xs @ [x])" if "(k, v) \<in> set acc" for k v
  proof -
    from that inv have v: "v = filter (\<lambda>y. key y = k) xs"
      by (auto simp: groups_of_def)
    from that notin have "k \<noteq> key x" by force
    with v show ?thesis by auto
  qed
  have "distinct (map fst (acc @ [(key x, [x])]))"
    using inv notin by (simp add: groups_of_def)
  moreover have "fst ` set (acc @ [(key x, [x])]) = key ` set (xs @ [x])"
    using inv by (auto simp: groups_of_def)
  moreover have "\<forall>(k, v) \<in> set (acc @ [(key x, [x])]). v = filter (\<lambda>y. key y = k) (xs @ [x])"
    using old empty by auto
  ultimately have "groups_of key (xs @ [x]) (acc @ [(key x, [x])])"
    unfolding groups_of_def by blast
  moreover from none ok have "push_to (key x) x acc = Inr (acc @ [(key x, [x])])"
    by (simp add: push_to_def)
  ultimately show ?thesis by simp
qed


lemma push_to_old:
  assumes inv: "groups_of key xs acc" and some: "map_of acc (key x) = Some l"
  shows "push_to (key x) x acc
           = Inr (map (\<lambda>(k, v). if k = key x then (k, v @ [x]) else (k, v)) acc)
       \<and> groups_of key (xs @ [x])
           (map (\<lambda>(k, v). if k = key x then (k, v @ [x]) else (k, v)) acc)"
proof -
  let ?upd = "\<lambda>(k, v). if k = key x then (k, v @ [x]) else (k, v)"
  have fst_upd: "map fst (map ?upd acc) = map fst acc"
    by (induction acc) (auto split: prod.splits)
  from some have "key x \<in> fst ` set acc"
    by (metis map_of_eq_None_iff option.distinct(1))
  with inv have present: "key x \<in> key ` set xs"
    by (simp add: groups_of_def)
  have d: "distinct (map fst (map ?upd acc))"
    using inv by (simp only: fst_upd groups_of_def)
  have "fst ` set (map ?upd acc) = fst ` set acc"
    using fst_upd by (metis list.set_map)
  with inv present have i: "fst ` set (map ?upd acc) = key ` set (xs @ [x])"
    by (auto simp: groups_of_def)
  have v: "\<forall>(k, v) \<in> set (map ?upd acc). v = filter (\<lambda>y. key y = k) (xs @ [x])"
  proof -
    have "v' = filter (\<lambda>y. key y = k') (xs @ [x])" if "(k', v') \<in> set (map ?upd acc)" for k' v'
    proof -
      from that obtain k v where kv: "(k, v) \<in> set acc" and eq: "(k', v') = ?upd (k, v)"
        by auto
      from kv inv have "v = filter (\<lambda>y. key y = k) xs"
        by (auto simp: groups_of_def)
      with eq show ?thesis by (auto split: if_splits)
    qed
    then show ?thesis by blast
  qed
  from d i v have "groups_of key (xs @ [x]) (map ?upd acc)"
    unfolding groups_of_def by blast
  moreover from some have "push_to (key x) x acc = Inr (map ?upd acc)"
    by (simp add: push_to_def)
  ultimately show ?thesis by simp
qed


lemma push_to_groups:
  assumes "groups_of key xs acc" and "key x \<notin> set proto_keys"
  shows "\<exists>acc'. push_to (key x) x acc = Inr acc' \<and> groups_of key (xs @ [x]) acc'"
proof (cases "map_of acc (key x)")
  case None
  from push_to_new [OF assms(1) None assms(2)] show ?thesis by blast
next
  case (Some l)
  from push_to_old [OF assms(1) Some] show ?thesis by blast
qed

lemma reduce_push_groups:
  assumes "groups_of key pre acc" and "\<forall>x \<in> set xs. key x \<notin> set proto_keys"
  shows "\<exists>r. reduce_push key xs acc = Inr r \<and> groups_of key (pre @ xs) r"
  using assms
proof (induction xs arbitrary: pre acc)
  case Nil
  then show ?case by simp
next
  case (Cons x xs)
  from Cons.prems(2) have kx: "key x \<notin> set proto_keys"
    and rest: "\<forall>y \<in> set xs. key y \<notin> set proto_keys"
    by simp_all
  from push_to_groups [OF Cons.prems(1) kx]
  obtain acc' where p: "push_to (key x) x acc = Inr acc'"
    and g: "groups_of key (pre @ [x]) acc'"
    by blast
  from Cons.IH [OF g rest] obtain r where "reduce_push key xs acc' = Inr r"
    and "groups_of key ((pre @ [x]) @ xs) r" by blast
  with p show ?case by simp
qed

lemma groups_of_map_of:
  assumes "groups_of key xs obj"
  shows "map_of obj k = (if k \<in> key ` set xs then Some (filter (\<lambda>x. key x = k) xs) else None)"
proof (cases "k \<in> key ` set xs")
  case True
  from assms have d: "distinct (map fst obj)" and i: "fst ` set obj = key ` set xs"
    and v: "\<forall>(k, v) \<in> set obj. v = filter (\<lambda>x. key x = k) xs"
    unfolding groups_of_def by simp_all
  from True i have "k \<in> fst ` set obj" by simp
  then obtain p where p: "p \<in> set obj" and "k = fst p" by blast
  then have kv: "(k, snd p) \<in> set obj" by simp
  with v have "snd p = filter (\<lambda>x. key x = k) xs" by blast
  moreover from d kv have "map_of obj k = Some (snd p)" by (rule map_of_is_SomeI)
  ultimately show ?thesis using True by simp
next
  case False
  with assms have "k \<notin> fst ` set obj" by (simp add: groups_of_def)
  then have "map_of obj k = None" by (simp add: map_of_eq_None_iff)
  with False show ?thesis by simp
qed

subsection \<open>Timeline groups\<close>

lemma timeline_order_proto: "\<forall>k \<in> set timeline_order. k \<notin> set proto_keys"
  by code_simp

lemma timeline_order_not_proto: "k \<in> set timeline_order \<Longrightarrow> k \<notin> set proto_keys"
  using timeline_order_proto by blast

lemma timeline_order_eq:
  "timeline_order =
     [utf16 ''Today'', utf16 ''Yesterday'', utf16 ''Last 7 Days'', utf16 ''Earlier'']"
  by (simp add: timeline_order_def)

lemma getTimelineGroup_cases:
  "getTimelineGroup z now date \<in> set timeline_order"
  by (simp add: getTimelineGroup_def timeline_order_eq Let_def split: prod.splits)

lemma labels_differ:
  "utf16 ''Today'' \<noteq> utf16 ''Last 7 Days''" "utf16 ''Yesterday'' \<noteq> utf16 ''Last 7 Days''"
  "utf16 ''Earlier'' \<noteq> utf16 ''Last 7 Days''"
  by code_simp+

lemma map_of_sorted_groups:
  "map_of (map (\<lambda>(k, v). (k, f v)) obj) k = map_option f (map_of obj k)"
  by (induction obj) auto

lemma length_sort_newest_first: "length (sort_newest_first created xs) = length xs"
  by (simp add: sort_newest_first_def)

lemma timelineGroups_eq:
  "timelineGroups z created now items =
     Inr (map (\<lambda>k. (k, sort_newest_first created
                          (filter (\<lambda>i. getTimelineGroup z now (created i) = k) items)))
            (filter (\<lambda>k. k \<in> (\<lambda>i. getTimelineGroup z now (created i)) ` set items)
               timeline_order))"
proof (cases "items = []")
  case True
  then show ?thesis by (simp add: timelineGroups_def)
next
  case False
  let ?label = "\<lambda>i. getTimelineGroup z now (created i)"
  have "\<forall>x \<in> set items. ?label x \<notin> set proto_keys"
    using getTimelineGroup_cases timeline_order_not_proto by blast
  from reduce_push_groups [OF groups_of_Nil this]
  obtain groups where r: "reduce_push ?label items [] = Inr groups"
    and g: "groups_of ?label items groups" by auto
  let ?sorted = "map (\<lambda>(k, v). (k, sort_newest_first created v)) groups"
  have look: "map_of ?sorted k =
      (if k \<in> ?label ` set items
       then Some (sort_newest_first created (filter (\<lambda>i. ?label i = k) items)) else None)" for k
    by (simp add: map_of_sorted_groups groups_of_map_of [OF g])
  have nonempty: "filter (\<lambda>i. ?label i = k) items \<noteq> []" if "k \<in> ?label ` set items" for k
    using that by (auto simp: filter_empty_conv)
  have p: "(case map_of ?sorted k of Some v \<Rightarrow> length v > 0 | None \<Rightarrow> False)
             \<longleftrightarrow> k \<in> ?label ` set items" for k
    using nonempty [of k] by (simp add: look length_sort_newest_first)
  have v: "(case map_of ?sorted k of Some v \<Rightarrow> v | None \<Rightarrow> [])
             = sort_newest_first created (filter (\<lambda>i. ?label i = k) items)"
    if "k \<in> ?label ` set items" for k
    using that by (simp add: look)
  show ?thesis
    using False r by (simp add: timelineGroups_def Let_def p v cong: map_cong)
qed


lemma sum_list_filter_neutral:
  assumes "\<And>k. \<not> P k \<Longrightarrow> m k = {#}"
  shows "(\<Sum>k\<leftarrow>filter P ks. m k) = (\<Sum>k\<leftarrow>ks. (m k :: 'b multiset))"
  using assms by (induction ks) auto

lemma mset_filter_split:
  "mset (filter (\<lambda>x. f x = k) xs) + mset (filter (\<lambda>x. f x \<in> set ks) xs)
     = mset (filter (\<lambda>x. f x = k \<or> f x \<in> set ks) xs)" if "k \<notin> set ks"
  using that by (induction xs) auto

lemma sum_list_mset_filter:
  "distinct ks \<Longrightarrow>
   (\<Sum>k\<leftarrow>ks. mset (filter (\<lambda>x. f x = k) xs)) = mset (filter (\<lambda>x. f x \<in> set ks) xs)"
proof (induction ks)
  case Nil
  then show ?case by simp
next
  case (Cons k ks)
  then have "k \<notin> set ks" and "distinct ks" by simp_all
  with Cons.IH mset_filter_split [of k ks f xs] show ?case by simp
qed

lemma sorted_sort_newest_first:
  "sorted_wrt (\<lambda>a b. created b \<le> created a) (sort_newest_first created xs)"
proof -
  have "sorted (map (\<lambda>r. - created r) (sort_key (\<lambda>r. - created r) xs))"
    by (rule sorted_sort_key)
  then show ?thesis
    by (simp add: sorted_map sort_newest_first_def)
qed

lemma mset_sort_newest_first: "mset (sort_newest_first created xs) = mset xs"
  by (simp add: sort_newest_first_def)

lemma distinct_timeline_order: "distinct timeline_order"
  by code_simp

text \<open>
  Whatever the time zone, \<open>timelineGroups\<close> returns (it never raises) the groups whose
  names are the labels that \<open>getTimelineGroup\<close> gives to the records, in the fixed order
  Today, Yesterday, Last 7 Days, Earlier; no group is empty, each group holds exactly the
  records carrying its label, newest first, and together the groups hold every record
  exactly once.
\<close>

lemma timelineGroups_structure:
  "\<exists>gs. timelineGroups z created now items = Inr gs
     \<and> map fst gs
         = filter (\<lambda>k. \<exists>r \<in> set items. getTimelineGroup z now (created r) = k) timeline_order
     \<and> (\<forall>(k, rs) \<in> set gs.
           rs \<noteq> [] \<and> sorted_wrt (\<lambda>a b. created b \<le> created a) rs
           \<and> mset rs = mset (filter (\<lambda>r. getTimelineGroup z now (created r) = k) items))
     \<and> mset (concat (map snd gs)) = mset items"
proof -
  let ?label = "\<lambda>i. getTimelineGroup z now (created i)"
  let ?present = "\<lambda>k. k \<in> ?label ` set items"
  let ?grp = "\<lambda>k. sort_newest_first created (filter (\<lambda>i. ?label i = k) items)"
  let ?gs = "map (\<lambda>k. (k, ?grp k)) (filter ?present timeline_order)"
  have eq: "timelineGroups z created now items = Inr ?gs"
    by (rule timelineGroups_eq)
  have keys: "map fst ?gs = filter (\<lambda>k. \<exists>r \<in> set items. ?label r = k) timeline_order"
  proof -
    have "map fst ?gs = filter ?present timeline_order"
      by (simp add: comp_def)
    also have "\<dots> = filter (\<lambda>k. \<exists>r \<in> set items. ?label r = k) timeline_order"
      by (rule filter_cong) auto
    finally show ?thesis .
  qed
  have each: "\<forall>(k, rs) \<in> set ?gs.
      rs \<noteq> [] \<and> sorted_wrt (\<lambda>a b. created b \<le> created a) rs
      \<and> mset rs = mset (filter (\<lambda>r. ?label r = k) items)"
  proof -
    have "?grp k \<noteq> []" if "?present k" for k
    proof -
      from that have "filter (\<lambda>i. ?label i = k) items \<noteq> []"
        by (auto simp: filter_empty_conv)
      then have "length (?grp k) \<noteq> 0"
        by (simp add: length_sort_newest_first)
      then show ?thesis by auto
    qed
    then show ?thesis
      by (auto simp: sorted_sort_newest_first mset_sort_newest_first)
  qed
  have all: "mset (concat (map snd ?gs)) = mset items"
  proof -
    have "mset (concat (map snd ?gs))
            = (\<Sum>k\<leftarrow>filter ?present timeline_order. mset (filter (\<lambda>i. ?label i = k) items))"
      by (simp add: mset_concat comp_def mset_sort_newest_first)
    also have "\<dots> = (\<Sum>k\<leftarrow>timeline_order. mset (filter (\<lambda>i. ?label i = k) items))"
    proof (rule sum_list_filter_neutral)
      fix k assume "\<not> ?present k"
      then have "filter (\<lambda>i. ?label i = k) items = []"
        by (auto simp: filter_empty_conv)
      then show "mset (filter (\<lambda>i. ?label i = k) items) = {#}" by simp
    qed
    also have "\<dots> = mset (filter (\<lambda>i. ?label i \<in> set timeline_order) items)"
      by (rule sum_list_mset_filter) (rule distinct_timeline_order)
    also have "\<dots> = mset items"
      by (simp add: getTimelineGroup_cases)
    finally show ?thesis .
  qed
  from eq keys each all show ?thesis by blast
qed

text \<open>
  The steps of \<open>getTimelineGroup\<close>, for evaluating it at given instants.
\<close>

lemma getTimelineGroup_steps:
  assumes "YearMonthDate (Day (LocalTime z now)) = (ny, nm, nd)"
    and "new_Date z ny nm nd = today"
    and "getDate z today = gd"
    and "setDate z today (gd - 1) = yesterday"
    and "setDate z today (gd - 7) = lastWeek"
    and "YearMonthDate (Day (LocalTime z date)) = (iy, im, idt)"
    and "new_Date z iy im idt = itemDate"
  shows "getTimelineGroup z now date =
     (if itemDate = today then utf16 ''Today''
      else if itemDate = yesterday then utf16 ''Yesterday''
      else if itemDate \<ge> lastWeek then utf16 ''Last 7 Days''
      else utf16 ''Earlier'')"
  by (simp add: getTimelineGroup_def assms Let_def)

text \<open>\<open>MakeDay\<close> undoes \<open>YearMonthDate\<close>, and moves with the day of the month.\<close>

lemma month_range: "0 \<le> MonthFromDayWithinYear x L \<and> MonthFromDayWithinYear x L \<le> 11"
  by (simp add: MonthFromDayWithinYear_def)

lemma MakeDay_YearMonthDate:
  assumes "YearMonthDate d = (y, m, dt)"
  shows "MakeDay y m dt = d"
proof -
  from assms have y: "y = YearFromDay d"
    by (auto simp: YearMonthDate_def Let_def)
  from assms have m: "m = MonthFromDayWithinYear (d - DayFromYear y) (InLeapYear y)"
    unfolding y by (auto simp: YearMonthDate_def Let_def)
  from assms have dt: "dt = d - DayFromYear y - monthStart m (InLeapYear y) + 1"
    unfolding y m by (auto simp: YearMonthDate_def Let_def)
  from m month_range have "0 \<le> m" "m \<le> 11" by simp_all
  then have "m div 12 = 0" "m mod 12 = m" by simp_all
  with dt show ?thesis by (simp add: MakeDay_def)
qed

lemma MakeDay_shift: "MakeDay y m (dt - n) = MakeDay y m dt - n"
  by (simp add: MakeDay_def Let_def)

lemma year_of_YearMonthDate: "fst (YearMonthDate d) = YearFromDay d"
  by (simp add: YearMonthDate_def Let_def)

lemma new_Date_of_day:
  assumes "YearMonthDate d = (y, m, dt)" and "\<not> (0 \<le> YearFromDay d \<and> YearFromDay d \<le> 99)"
  shows "new_Date z y m dt = UTC z (d * msPerDay)"
proof -
  from assms(1) year_of_YearMonthDate [of d] have "y = YearFromDay d" by simp
  with assms(2) have "\<not> (0 \<le> y \<and> y \<le> 99)" by simp
  with MakeDay_YearMonthDate [OF assms(1)] show ?thesis
    by (auto simp: new_Date_def Let_def)
qed

text \<open>
  Where the local midnight that starts the current day exists, the local midnights of
  later days are later instants, and neither date falls in the years 0 to 99 (which
  \<open>new Date(year, month, date)\<close> reads as 1900 to 1999), the label is the one the
  specification gives by calendar dates.
\<close>

lemma getTimelineGroup_regular:
  assumes midnight: "LocalTime z (UTC z (localDay z now * msPerDay)) = localDay z now * msPerDay"
    and mono: "\<And>a b. a < b \<Longrightarrow> UTC z (a * msPerDay) < UTC z (b * msPerDay)"
    and ynow: "\<not> (0 \<le> YearFromDay (localDay z now) \<and> YearFromDay (localDay z now) \<le> 99)"
    and yitem: "\<not> (0 \<le> YearFromDay (localDay z date) \<and> YearFromDay (localDay z date) \<le> 99)"
  shows "getTimelineGroup z now date = timeline_label_spec (localDay z now) (localDay z date)"
proof -
  define Dn where "Dn = localDay z now"
  define Di where "Di = localDay z date"
  define mid where "mid d = UTC z (d * msPerDay)" for d
  obtain ny nm nd where n: "YearMonthDate Dn = (ny, nm, nd)" by (cases "YearMonthDate Dn")
  obtain iy im idt where i: "YearMonthDate Di = (iy, im, idt)" by (cases "YearMonthDate Di")
  have today: "new_Date z ny nm nd = mid Dn"
    using new_Date_of_day [OF n] ynow by (simp add: Dn_def mid_def)
  have item: "new_Date z iy im idt = mid Di"
    using new_Date_of_day [OF i] yitem by (simp add: Di_def mid_def)
  have loc: "LocalTime z (mid Dn) = Dn * msPerDay"
    using midnight by (simp add: Dn_def mid_def)
  have day: "Day (LocalTime z (mid Dn)) = Dn" and time: "TimeWithinDay (LocalTime z (mid Dn)) = 0"
    by (simp_all add: loc Day_def TimeWithinDay_def msPerDay_def)
  have gd: "getDate z (mid Dn) = nd"
    by (simp add: getDate_def day n)
  have sd: "setDate z (mid Dn) (nd - k) = mid (Dn - k)" for k
  proof -
    have mk: "MakeDay ny nm (nd - k) = Dn - k"
      using MakeDay_YearMonthDate [OF n] by (simp add: MakeDay_shift)
    have "setDate z (mid Dn) (nd - k) = UTC z (MakeDay ny nm (nd - k) * msPerDay)"
      by (simp add: setDate_def Let_def day time n)
    then show ?thesis
      by (simp add: mk mid_def)
  qed
  have strict: "mid a < mid b" if "a < b" for a b
    using mono [OF that] by (simp add: mid_def)
  have eq_iff: "mid a = mid b \<longleftrightarrow> a = b" for a b
    using strict [of a b] strict [of b a] by (cases a b rule: linorder_cases) auto
  have le_iff: "mid a \<le> mid b \<longleftrightarrow> a \<le> b" for a b
    using strict [of a b] strict [of b a] by (cases a b rule: linorder_cases) auto
  have n': "YearMonthDate (Day (LocalTime z now)) = (ny, nm, nd)"
    using n by (simp add: Dn_def localDay_def)
  have i': "YearMonthDate (Day (LocalTime z date)) = (iy, im, idt)"
    using i by (simp add: Di_def localDay_def)
  from getTimelineGroup_steps [OF n' today gd sd [of 1] sd [of 7] i' item]
  have "getTimelineGroup z now date = timeline_label_spec Dn Di"
    by (simp add: timeline_label_spec_def eq_iff le_iff)
  then show ?thesis by (simp add: Dn_def Di_def)
qed

text \<open>
  The specification's example in UTC, and an example across the end of summer time in
  New York: seen on Monday 2 November 2026 at 23:30 there (2026-11-03T04:30:00Z), a
  record of Sunday 1 November at 00:30 (2026-11-01T04:30:00Z), 48 hours earlier, is of
  yesterday.
\<close>

lemma utc_steps:
  "YearMonthDate (Day (LocalTime utc_zone noon20)) = (1970, 0, 21)"
  "new_Date utc_zone 1970 0 21 = 1728000000"
  "getDate utc_zone 1728000000 = 21"
  "setDate utc_zone 1728000000 (21 - 1) = 1641600000"
  "setDate utc_zone 1728000000 (21 - 7) = 1123200000"
  "YearMonthDate (Day (LocalTime utc_zone (noon20 - 10 * 86400000))) = (1970, 0, 11)"
  "new_Date utc_zone 1970 0 11 = 864000000"
  "YearMonthDate (Day (LocalTime utc_zone (noon20 - 1 * 86400000))) = (1970, 0, 20)"
  "new_Date utc_zone 1970 0 20 = 1641600000"
  by code_simp+

lemma utc_labels:
  "getTimelineGroup utc_zone noon20 (noon20 - 10 * 86400000) = utf16 ''Earlier''"
  "getTimelineGroup utc_zone noon20 (noon20 - 1 * 86400000) = utf16 ''Yesterday''"
  "getTimelineGroup utc_zone noon20 noon20 = utf16 ''Today''"
  using getTimelineGroup_steps [OF utc_steps(1-5) utc_steps(6,7)]
    getTimelineGroup_steps [OF utc_steps(1-5) utc_steps(8,9)]
    getTimelineGroup_steps [OF utc_steps(1-5) utc_steps(1,2)]
  by simp_all

lemma new_york_steps:
  "YearMonthDate (Day (LocalTime new_york_2026 1793680200000)) = (2026, 10, 2)"
  "new_Date new_york_2026 2026 10 2 = 1793595600000"
  "getDate new_york_2026 1793595600000 = 2"
  "setDate new_york_2026 1793595600000 (2 - 1) = 1793505600000"
  "setDate new_york_2026 1793595600000 (2 - 7) = 1792987200000"
  "YearMonthDate (Day (LocalTime new_york_2026 1793507400000)) = (2026, 10, 1)"
  "new_Date new_york_2026 2026 10 1 = 1793505600000"
  by code_simp+

lemma new_york_yesterday:
  "getTimelineGroup new_york_2026 1793680200000 1793507400000 = utf16 ''Yesterday''"
  using getTimelineGroup_steps [OF new_york_steps] by simp

text \<open>The steps at the instants of the Cairo example.\<close>

lemma cairo_steps:
  "YearMonthDate (Day (LocalTime cairo_2026 cairo_friday)) = (2026, 3, 24)"
  "new_Date cairo_2026 2026 3 24 = 1776981600000"
  "getDate cairo_2026 1776981600000 = 24"
  "setDate cairo_2026 1776981600000 (24 - 1) = 1776898800000"
  "setDate cairo_2026 1776981600000 (24 - 7) = 1776380400000"
  "YearMonthDate (Day (LocalTime cairo_2026 (created_at cairo_thursday_item))) = (2026, 3, 23)"
  "new_Date cairo_2026 2026 3 23 = 1776895200000"
  by code_simp+

lemma cairo_label:
  "getTimelineGroup cairo_2026 cairo_friday (created_at cairo_thursday_item)
     = utf16 ''Last 7 Days''"
  using getTimelineGroup_steps [OF cairo_steps] by simp

lemma cairo_days:
  "localDay cairo_2026 cairo_friday = 20567"
  "localDay cairo_2026 (created_at cairo_thursday_item) = 20566"
  by code_simp+

text \<open>
  C4. In a time zone that changes to summer time at midnight, the code labels the
  records of the day before the change wrongly on the day of the change. On Friday 24
  April 2026 the clocks in Cairo go from 00:00 to 01:00. That day, \<open>today\<close> is the
  instant of 01:00, the first instant of the day; \<open>setDate\<close> keeps the time of day, so
  \<open>yesterday\<close> is Thursday 01:00, while \<open>itemDate\<close> of a record of Thursday is Thursday
  00:00. The two differ, and the record, whose calendar date is today minus one day, is
  labelled \<open>Last 7 Days\<close> and not \<open>Yesterday\<close>. Where today's midnight exists the
  code classifies by calendar date (\<open>getTimelineGroup_regular\<close>), and the grouping,
  the order inside a group and the order of the groups are as claimed in every zone
  (\<open>timelineGroups_structure\<close>).
\<close>

theorem cairo_yesterday_mislabelled:
  "YearMonthDate (localDay cairo_2026 cairo_friday) = (2026, 3, 24)
   \<and> YearMonthDate (localDay cairo_2026 (created_at cairo_thursday_item)) = (2026, 3, 23)
   \<and> localDay cairo_2026 (created_at cairo_thursday_item) = localDay cairo_2026 cairo_friday - 1
   \<and> timeline_label_spec (localDay cairo_2026 cairo_friday)
        (localDay cairo_2026 (created_at cairo_thursday_item)) = utf16 ''Yesterday''
   \<and> getTimelineGroup cairo_2026 cairo_friday (created_at cairo_thursday_item)
        = utf16 ''Last 7 Days''
   \<and> timelineGroups cairo_2026 created_at cairo_friday [cairo_thursday_item]
        = Inr [(utf16 ''Last 7 Days'', [cairo_thursday_item])]"
proof -
  have a: "YearMonthDate (localDay cairo_2026 cairo_friday) = (2026, 3, 24)"
    and b: "YearMonthDate (localDay cairo_2026 (created_at cairo_thursday_item)) = (2026, 3, 23)"
    using cairo_steps(1,6) by (simp_all add: localDay_def)
  have c: "localDay cairo_2026 (created_at cairo_thursday_item)
             = localDay cairo_2026 cairo_friday - 1"
    by (simp add: cairo_days)
  have d: "timeline_label_spec (localDay cairo_2026 cairo_friday)
        (localDay cairo_2026 (created_at cairo_thursday_item)) = utf16 ''Yesterday''"
    by (simp add: cairo_days timeline_label_spec_def)
  have e: "timelineGroups cairo_2026 created_at cairo_friday [cairo_thursday_item]
        = Inr [(utf16 ''Last 7 Days'', [cairo_thursday_item])]"
    by (simp add: timelineGroups_eq cairo_label timeline_order_eq labels_differ
        sort_newest_first_def)
  show ?thesis by (intro conjI a b c d cairo_label e)
qed

subsection \<open>Category and type groups\<close>













text \<open>
  A category that names a property of \<open>Object.prototype\<close> makes the grouping loop raise;
  the statements below are about record lists without such keys.
\<close>

lemma groupedItems_constructor_raises:
  "groupedItems (toLowerCase lower_with_sigma)
     [\<lparr>item_name = utf16 ''saw'', location = utf16 ''shed'',
       category = Some (utf16 ''constructor''), created_at = 5\<rparr>]
   = Inl TypeError"
  by code_simp






section \<open>Properties of the debounced suggestions\<close>

text \<open>
  C9, as stated, fails in its second half: the length test sits inside the debounced
  callback. With a suggestion shown for \<open>pa\<close>, changing the query to \<open>p\<close> at instant 200
  leaves the list and its visibility as they were, also at instant 349; they are cleared
  when the timer fires at 350.
\<close>

theorem short_query_counterexample:
  "suggestions (suggest_run one_hit [Change 10 ''pa'', Clock 160] (mount 0)) = [2]
   \<and> showSuggestions (suggest_run one_hit [Change 10 ''pa'', Clock 160] (mount 0))
   \<and> suggestions (suggest_run one_hit [Change 10 ''pa'', Clock 160, Change 200 ''p''] (mount 0)) = [2]
   \<and> showSuggestions (suggest_run one_hit [Change 10 ''pa'', Clock 160, Change 200 ''p''] (mount 0))
   \<and> showSuggestions
        (suggest_run one_hit [Change 10 ''pa'', Clock 160, Change 200 ''p'', Clock 349] (mount 0))
   \<and> \<not> showSuggestions
        (suggest_run one_hit [Change 10 ''pa'', Clock 160, Change 200 ''p'', Clock 350] (mount 0))"
  by (simp add: suggest_run_def mount_def setSearchQuery_def clock_reaches_def
      fetchSuggestions_def one_hit_def Let_def)

lemma fetchSuggestions_fetched:
  "set (fetched (fetchSuggestions api q s)) \<subseteq> set (fetched s) \<union> {q'. 2 \<le> length q'}"
  by (auto simp: fetchSuggestions_def Let_def)

lemma suggest_step_fetched:
  assumes "\<forall>q \<in> set (fetched s). 2 \<le> length q"
  shows "\<forall>q \<in> set (fetched (suggest_step api e s)). 2 \<le> length q"
proof (cases e)
  case (Change t q)
  with assms show ?thesis by (simp add: setSearchQuery_def)
next
  case (Clock now)
  show ?thesis
  proof (cases "debounceTimer s")
    case None
    with Clock assms show ?thesis by (simp add: clock_reaches_def)
  next
    case (Some p)
    obtain due q where p: "p = (due, q)" by (cases p)
    have "set (fetched (fetchSuggestions api q (s\<lparr>debounceTimer := None\<rparr>)))
            \<subseteq> set (fetched s) \<union> {q'. 2 \<le> length q'}"
      using fetchSuggestions_fetched [of api q "s\<lparr>debounceTimer := None\<rparr>"] by simp
    with assms have "\<forall>q' \<in> set (fetched (fetchSuggestions api q (s\<lparr>debounceTimer := None\<rparr>))).
                       2 \<le> length q'"
      by blast
    with Clock Some p assms show ?thesis by (simp add: clock_reaches_def)
  qed
qed

lemma suggest_fold_fetched:
  "\<forall>q \<in> set (fetched s). 2 \<le> length q \<Longrightarrow>
   \<forall>q \<in> set (fetched (fold (suggest_step api) evs s)). 2 \<le> length q"
proof (induction evs arbitrary: s)
  case Nil
  then show ?case by simp
next
  case (Cons e evs)
  from Cons.prems have "\<forall>q \<in> set (fetched (suggest_step api e s)). 2 \<le> length q"
    by (rule suggest_step_fetched)
  from Cons.IH [OF this] show ?case by simp
qed

text \<open>
  C9, amended. From mounting on, whatever the query changes and clock readings, every
  query handed to \<open>getDocumentSuggestions\<close> has at least 2 characters. A query change by
  itself leaves the suggestion list, its visibility and the fetches as they were and
  (when the value differs) sets the timer 150 ms ahead; when the timer fires for a query
  shorter than 2 characters, nothing is fetched and the list is cleared and hidden.
\<close>

theorem short_query_never_fetched:
  "(\<forall>q \<in> set (fetched (suggest_run api evs (mount t0))). 2 \<le> length q)
   \<and> (suggestions (setSearchQuery t q s) = suggestions s
      \<and> showSuggestions (setSearchQuery t q s) = showSuggestions s
      \<and> fetched (setSearchQuery t q s) = fetched s
      \<and> (q \<noteq> searchQuery s \<longrightarrow> debounceTimer (setSearchQuery t q s) = Some (t + 150, q)))
   \<and> (length q < 2 \<and> debounceTimer s = Some (due, q) \<and> due \<le> now \<longrightarrow>
        fetched (clock_reaches api now s) = fetched s
      \<and> suggestions (clock_reaches api now s) = []
      \<and> \<not> showSuggestions (clock_reaches api now s))"
proof -
  have "\<forall>q \<in> set (fetched (mount t0 :: 'a suggest_state)). 2 \<le> length q"
    by (simp add: mount_def)
  then have "\<forall>q \<in> set (fetched (suggest_run api evs (mount t0))). 2 \<le> length q"
    unfolding suggest_run_def by (rule suggest_fold_fetched)
  then show ?thesis
    by (simp add: setSearchQuery_def clock_reaches_def fetchSuggestions_def)
qed

theorem short_query_never_fetched_witness:
  "fetched (suggest_run one_hit [Change 10 ''pa'', Clock 160, Change 200 ''p'', Clock 350] (mount 0))
     = [''pa'']
   \<and> 2 \<le> length ''pa''
   \<and> suggestions (clock_reaches one_hit 350
        (suggest_run one_hit [Change 10 ''pa'', Clock 160, Change 200 ''p''] (mount 0))) = []"
proof -
  let ?s = "suggest_run one_hit [Change 10 ''pa'', Clock 160, Change 200 ''p''] (mount 0)"
  have f: "fetched (suggest_run one_hit
              [Change 10 ''pa'', Clock 160, Change 200 ''p'', Clock 350] (mount 0)) = [''pa'']"
    by (simp add: suggest_run_def mount_def setSearchQuery_def clock_reaches_def
        fetchSuggestions_def one_hit_def Let_def)
  have t: "debounceTimer ?s = Some (350, ''p'')"
    by (simp add: suggest_run_def mount_def setSearchQuery_def clock_reaches_def
        fetchSuggestions_def one_hit_def Let_def)
  from short_query_never_fetched [of one_hit
      "[Change 10 ''pa'', Clock 160, Change 200 ''p'', Clock 350]" 0 200 "''p''" ?s 350 350]
  have a: "2 \<le> length ''pa''"
    and b: "suggestions (clock_reaches one_hit 350 ?s) = []"
    unfolding f using t by simp_all
  show ?thesis by (intro conjI f a b)
qed

end
